theory Spec2Isabelle
  imports Main
begin

section \<open>Core types (chessLogic.ts)\<close>

datatype PieceType = King | Queen | Rook | Bishop | Knight | Pawn

datatype PieceColor = White | Black

text \<open>
  \<^verbatim>\<open>hasMoved?: boolean\<close> is an optional field: \<open>None\<close> is the absent field, which
  every test of the source (\<^verbatim>\<open>!king.hasMoved\<close>) treats like \<^verbatim>\<open>false\<close>.
\<close>

record ChessPiece =
  type :: PieceType
  color :: PieceColor
  hasMoved :: "bool option"

record Position =
  row :: int
  col :: int

type_synonym BoardState = "ChessPiece option list list"

record MoveResult =
  newBoard :: BoardState
  capturedPiece :: "ChessPiece option"
  isPromotion :: bool
  isCastling :: bool
  isEnPassant :: bool

record GameStatus =
  isCheck :: bool
  isCheckmate :: bool
  isStalemate :: bool

record CapturedPieces =
  white :: "ChessPiece list"
  black :: "ChessPiece list"

text \<open>
  \<^verbatim>\<open>GameState\<close> of the source carries the three status flags next to the board; the
  record extends \<open>GameStatus\<close> so that the flags keep their names.
\<close>

record GameState = GameStatus +
  board :: BoardState
  currentTurn :: PieceColor
  selectedSquare :: "Position option"
  validMoves :: "Position list"
  enPassantTarget :: "Position option"
  capturedPieces :: CapturedPieces

text \<open>
  What a call of the engine can do besides returning: \<open>TypeError\<close> is JavaScript's error
  on reading a property of \<^verbatim>\<open>null\<close>; \<open>NonNullAssertion\<close> marks a value that the
  source asserts to be present (\<^verbatim>\<open>!\<close>) and that is \<^verbatim>\<open>null\<close>, where the
  compiled code goes on with an object that is no \<^verbatim>\<open>ChessPiece\<close>.
\<close>

datatype error = TypeError | NonNullAssertion

section \<open>Board helpers\<close>

definition isInBounds :: "int \<Rightarrow> int \<Rightarrow> bool" where
  "isInBounds r c = (r \<ge> 0 \<and> r \<le> 7 \<and> c \<ge> 0 \<and> c \<le> 7)"

text \<open>The board the engine works on: eight rows of eight cells.\<close>

definition wf_board :: "BoardState \<Rightarrow> bool" where
  "wf_board b = (length b = 8 \<and> list_all (\<lambda>rw. length rw = 8) b)"

text \<open>
  \<^verbatim>\<open>board[r][c]\<close>. The engine reads a cell only after \<^verbatim>\<open>isInBounds\<close>, at a loop index
  in \<open>0..7\<close>, or at the square its caller passes; outside the grid the read is
  \<^verbatim>\<open>undefined\<close> (a falsy value, like \<^verbatim>\<open>null\<close>) for a column and raises for a row, and
  the model answers \<open>None\<close> for both.
\<close>

definition cell :: "BoardState \<Rightarrow> int \<Rightarrow> int \<Rightarrow> ChessPiece option" where
  "cell b r c =
     (if 0 \<le> r \<and> r < int (length b) \<and> 0 \<le> c \<and> c < int (length (b ! nat r))
      then b ! nat r ! nat c else None)"

text \<open>\<^verbatim>\<open>board[r][c] = v\<close>, for a square of the grid (elsewhere the model leaves the board).\<close>

definition setCell :: "BoardState \<Rightarrow> int \<Rightarrow> int \<Rightarrow> ChessPiece option \<Rightarrow> BoardState" where
  "setCell b r c v =
     (if 0 \<le> r \<and> r < int (length b) \<and> 0 \<le> c \<and> c < int (length (b ! nat r))
      then b[nat r := (b ! nat r)[nat c := v]] else b)"

definition cloneBoard :: "BoardState \<Rightarrow> BoardState" where
  "cloneBoard b = map (\<lambda>rw. map (\<lambda>cl. case cl of Some p \<Rightarrow> Some p | None \<Rightarrow> None) rw) b"

definition positionsEqual :: "Position \<Rightarrow> Position \<Rightarrow> bool" where
  "positionsEqual a b = (row a = row b \<and> col a = col b)"

definition opponent :: "PieceColor \<Rightarrow> PieceColor" where
  "opponent c = (if c = White then Black else White)"

text \<open>\<^verbatim>\<open>{ ...piece, hasMoved: true }\<close>\<close>

definition moved :: "ChessPiece \<Rightarrow> ChessPiece" where
  "moved p = p\<lparr>hasMoved := Some True\<rparr>"

text \<open>The truth value of \<^verbatim>\<open>piece.hasMoved\<close>.\<close>

definition hasMovedTruthy :: "ChessPiece \<Rightarrow> bool" where
  "hasMovedTruthy p = (hasMoved p = Some True)"

section \<open>Raw move generation (ignores check)\<close>

text \<open>
  The two blocks of \<^verbatim>\<open>getPawnMoves\<close>: the steps forward, and the body of the loop
  over the two diagonals (\<open>nr\<close>, \<open>nc\<close> the diagonal square).
\<close>

definition pawnForward :: "BoardState \<Rightarrow> int \<Rightarrow> int \<Rightarrow> int \<Rightarrow> int \<Rightarrow> Position list" where
  "pawnForward b r c dir startRow =
     (if isInBounds (r + dir) c \<and> cell b (r + dir) c = None
      then \<lparr>row = r + dir, col = c\<rparr> #
           (if r = startRow \<and> cell b (r + 2 * dir) c = None
            then [\<lparr>row = r + 2 * dir, col = c\<rparr>] else [])
      else [])"

definition pawnCapture ::
  "BoardState \<Rightarrow> PieceColor \<Rightarrow> Position option \<Rightarrow> int \<Rightarrow> int \<Rightarrow> Position list" where
  "pawnCapture b clr enPassant nr nc =
     (if isInBounds nr nc
      then (case cell b nr nc of
              Some target \<Rightarrow> if color target \<noteq> clr then [\<lparr>row = nr, col = nc\<rparr>] else []
            | None \<Rightarrow> [])
           @ (case enPassant of
                Some e \<Rightarrow> if row e = nr \<and> col e = nc then [\<lparr>row = nr, col = nc\<rparr>] else []
              | None \<Rightarrow> [])
      else [])"

definition getPawnMoves ::
  "BoardState \<Rightarrow> Position \<Rightarrow> PieceColor \<Rightarrow> Position option \<Rightarrow> Position list" where
  "getPawnMoves b pos clr enPassant =
     (let dir = (if clr = White then - 1 else 1);
          startRow = (if clr = White then 6 else 1);
          r = row pos;
          c = col pos
      in pawnForward b r c dir startRow
         @ concat (map (\<lambda>dc. pawnCapture b clr enPassant (r + dir) (c + dc)) [- 1, 1]))"

text \<open>
  The \<^verbatim>\<open>while (isInBounds(r, c))\<close> loop shared by the rook and the bishop, for one
  direction. The direction tables of the source hold no \<open>(0, 0)\<close>; the loop would not
  end on it, and the model stops there.
\<close>

function slide ::
  "BoardState \<Rightarrow> PieceColor \<Rightarrow> int \<Rightarrow> int \<Rightarrow> int \<Rightarrow> int \<Rightarrow> Position list" where
  "slide b clr r c dr dc =
     (if isInBounds r c \<and> (dr \<noteq> 0 \<or> dc \<noteq> 0)
      then (case cell b r c of
              None \<Rightarrow> \<lparr>row = r, col = c\<rparr> # slide b clr (r + dr) (c + dc) dr dc
            | Some target \<Rightarrow> (if color target \<noteq> clr then [\<lparr>row = r, col = c\<rparr>] else []))
      else [])"
  by pat_completeness auto
termination
  by (relation "measure (\<lambda>(b, clr, r, c, dr, dc).
        if dr > 0 then nat (8 - r) else if dr < 0 then nat (r + 1)
        else if dc > 0 then nat (8 - c) else nat (c + 1))")
     (auto simp: isInBounds_def)

definition getRookMoves :: "BoardState \<Rightarrow> Position \<Rightarrow> PieceColor \<Rightarrow> Position list" where
  "getRookMoves b pos clr =
     concat (map (\<lambda>(dr, dc). slide b clr (row pos + dr) (col pos + dc) dr dc)
               [(- 1, 0), (1, 0), (0, - 1), (0, 1)])"

definition getBishopMoves :: "BoardState \<Rightarrow> Position \<Rightarrow> PieceColor \<Rightarrow> Position list" where
  "getBishopMoves b pos clr =
     concat (map (\<lambda>(dr, dc). slide b clr (row pos + dr) (col pos + dc) dr dc)
               [(- 1, - 1), (- 1, 1), (1, - 1), (1, 1)])"

text \<open>The body shared by the knight's and the king's loops: one offset.\<close>

definition stepTo :: "BoardState \<Rightarrow> PieceColor \<Rightarrow> int \<Rightarrow> int \<Rightarrow> Position list" where
  "stepTo b clr r c =
     (if isInBounds r c
      then (case cell b r c of
              None \<Rightarrow> [\<lparr>row = r, col = c\<rparr>]
            | Some target \<Rightarrow> (if color target \<noteq> clr then [\<lparr>row = r, col = c\<rparr>] else []))
      else [])"

definition getKnightMoves :: "BoardState \<Rightarrow> Position \<Rightarrow> PieceColor \<Rightarrow> Position list" where
  "getKnightMoves b pos clr =
     concat (map (\<lambda>(dr, dc). stepTo b clr (row pos + dr) (col pos + dc))
               [(- 2, - 1), (- 2, 1), (- 1, - 2), (- 1, 2), (1, - 2), (1, 2), (2, - 1), (2, 1)])"

definition getQueenMoves :: "BoardState \<Rightarrow> Position \<Rightarrow> PieceColor \<Rightarrow> Position list" where
  "getQueenMoves b pos clr = getRookMoves b pos clr @ getBishopMoves b pos clr"

definition getKingMovesRaw :: "BoardState \<Rightarrow> Position \<Rightarrow> PieceColor \<Rightarrow> Position list" where
  "getKingMovesRaw b pos clr =
     concat (map (\<lambda>dr. concat (map (\<lambda>dc.
         if dr = 0 \<and> dc = 0 then [] else stepTo b clr (row pos + dr) (col pos + dc))
       [- 1, 0, 1])) [- 1, 0, 1])"

definition getRawMoves :: "BoardState \<Rightarrow> Position \<Rightarrow> Position option \<Rightarrow> Position list" where
  "getRawMoves b pos enPassant =
     (case cell b (row pos) (col pos) of
        None \<Rightarrow> []
      | Some piece \<Rightarrow>
          (case type piece of
             Pawn \<Rightarrow> getPawnMoves b pos (color piece) enPassant
           | Rook \<Rightarrow> getRookMoves b pos (color piece)
           | Bishop \<Rightarrow> getBishopMoves b pos (color piece)
           | Knight \<Rightarrow> getKnightMoves b pos (color piece)
           | Queen \<Rightarrow> getQueenMoves b pos (color piece)
           | King \<Rightarrow> getKingMovesRaw b pos (color piece)))"

section \<open>Check detection\<close>

text \<open>The squares in the order of \<^verbatim>\<open>for r = 0..7\<close>, \<^verbatim>\<open>for c = 0..7\<close>.\<close>

definition squares :: "Position list" where
  "squares = concat (map (\<lambda>r. map (\<lambda>c. \<lparr>row = r, col = c\<rparr>) [0..7]) [0..7])"

definition findKing :: "BoardState \<Rightarrow> PieceColor \<Rightarrow> Position option" where
  "findKing b clr =
     find (\<lambda>sq. case cell b (row sq) (col sq) of
                   Some piece \<Rightarrow> type piece = King \<and> color piece = clr
                 | None \<Rightarrow> False) squares"

definition isSquareAttacked :: "BoardState \<Rightarrow> Position \<Rightarrow> PieceColor \<Rightarrow> bool" where
  "isSquareAttacked b pos byColor =
     list_ex (\<lambda>sq. case cell b (row sq) (col sq) of
                      Some piece \<Rightarrow>
                        color piece = byColor \<and>
                        list_ex (\<lambda>m. positionsEqual m pos) (getRawMoves b sq None)
                    | None \<Rightarrow> False) squares"

definition isInCheck :: "BoardState \<Rightarrow> PieceColor \<Rightarrow> bool" where
  "isInCheck b clr =
     (case findKing b clr of
        None \<Rightarrow> False
      | Some kingPos \<Rightarrow> isSquareAttacked b kingPos (opponent clr))"

section \<open>Castling\<close>

text \<open>The two \<^verbatim>\<open>if\<close> blocks of \<^verbatim>\<open>getCastlingMoves\<close>, on the back rank \<open>rw\<close>.\<close>

definition castleKingside :: "BoardState \<Rightarrow> int \<Rightarrow> PieceColor \<Rightarrow> Position list" where
  "castleKingside b rw opp =
     (case cell b rw 7 of
        None \<Rightarrow> []
      | Some kRook \<Rightarrow>
          if type kRook = Rook \<and> \<not> hasMovedTruthy kRook \<and>
             cell b rw 5 = None \<and> cell b rw 6 = None \<and>
             \<not> isSquareAttacked b \<lparr>row = rw, col = 4\<rparr> opp \<and>
             \<not> isSquareAttacked b \<lparr>row = rw, col = 5\<rparr> opp \<and>
             \<not> isSquareAttacked b \<lparr>row = rw, col = 6\<rparr> opp
          then [\<lparr>row = rw, col = 6\<rparr>] else [])"

definition castleQueenside :: "BoardState \<Rightarrow> int \<Rightarrow> PieceColor \<Rightarrow> Position list" where
  "castleQueenside b rw opp =
     (case cell b rw 0 of
        None \<Rightarrow> []
      | Some qRook \<Rightarrow>
          if type qRook = Rook \<and> \<not> hasMovedTruthy qRook \<and>
             cell b rw 1 = None \<and> cell b rw 2 = None \<and> cell b rw 3 = None \<and>
             \<not> isSquareAttacked b \<lparr>row = rw, col = 4\<rparr> opp \<and>
             \<not> isSquareAttacked b \<lparr>row = rw, col = 3\<rparr> opp \<and>
             \<not> isSquareAttacked b \<lparr>row = rw, col = 2\<rparr> opp
          then [\<lparr>row = rw, col = 2\<rparr>] else [])"

definition getCastlingMoves :: "BoardState \<Rightarrow> Position \<Rightarrow> PieceColor \<Rightarrow> Position list" where
  "getCastlingMoves b pos clr =
     (case cell b (row pos) (col pos) of
        None \<Rightarrow> []
      | Some king \<Rightarrow>
          if hasMovedTruthy king then []
          else let opp = opponent clr;
                   rw = (if clr = White then 7 else 0)
               in if row pos \<noteq> rw \<or> col pos \<noteq> 4 then []
                  else castleKingside b rw opp @ castleQueenside b rw opp)"

section \<open>Legal move generation\<close>

text \<open>
  The board that the callback of \<^verbatim>\<open>candidates.filter\<close> builds for the destination
  \<open>to\<close>: the piece moved, the origin cleared, the pawn taken en passant removed.
\<close>

definition simulateMove ::
  "BoardState \<Rightarrow> Position \<Rightarrow> ChessPiece \<Rightarrow> Position option \<Rightarrow> Position \<Rightarrow> BoardState" where
  "simulateMove b pos piece enPassant to =
     (let nb = cloneBoard b;
          nb = setCell nb (row to) (col to) (Some (moved piece));
          nb = setCell nb (row pos) (col pos) None
      in if type piece = Pawn \<and>
            (case enPassant of Some e \<Rightarrow> positionsEqual to e | None \<Rightarrow> False)
         then setCell nb (row pos) (col to) None
         else nb)"

definition getLegalMoves :: "BoardState \<Rightarrow> Position \<Rightarrow> Position option \<Rightarrow> Position list" where
  "getLegalMoves b pos enPassant =
     (case cell b (row pos) (col pos) of
        None \<Rightarrow> []
      | Some piece \<Rightarrow>
          let candidates = getRawMoves b pos enPassant;
              candidates = (if type piece = King
                            then candidates @ getCastlingMoves b pos (color piece)
                            else candidates)
          in filter (\<lambda>to. \<not> isInCheck (simulateMove b pos piece enPassant to) (color piece))
               candidates)"

section \<open>Apply move\<close>

definition applyMove ::
  "BoardState \<Rightarrow> Position \<Rightarrow> Position \<Rightarrow> Position option \<Rightarrow> error + MoveResult" where
  "applyMove b frm to enPassant =
     (let nb = cloneBoard b in
      case cell nb (row frm) (col frm) of
        None \<Rightarrow> Inl TypeError
      | Some piece \<Rightarrow>
          let captured = cell nb (row to) (col to);
              ep = (type piece = Pawn \<and>
                    (case enPassant of Some e \<Rightarrow> positionsEqual to e | None \<Rightarrow> False));
              captured = (if ep then cell nb (row frm) (col to) else captured);
              nb = (if ep then setCell nb (row frm) (col to) None else nb);
              colDiff = col to - col frm;
              castling = (type piece = King \<and> \<bar>colDiff\<bar> = 2);
              rookFromCol = (if colDiff > 0 then 7 else 0);
              rookToCol = (if colDiff > 0 then 5 else 3)
          in if castling \<and> cell nb (row frm) rookFromCol = None then Inl NonNullAssertion
             else
               let nb = (if castling
                         then setCell
                                (setCell nb (row frm) rookToCol
                                   (map_option moved (cell nb (row frm) rookFromCol)))
                                (row frm) rookFromCol None
                         else nb);
                   nb = setCell nb (row to) (col to) (Some (moved piece));
                   nb = setCell nb (row frm) (col frm) None
               in Inr \<lparr>newBoard = nb,
                       capturedPiece = captured,
                       isPromotion = (type piece = Pawn \<and> (row to = 0 \<or> row to = 7)),
                       isCastling = castling,
                       isEnPassant = ep\<rparr>)"

section \<open>Game status\<close>

definition hasAnyLegalMoves :: "BoardState \<Rightarrow> PieceColor \<Rightarrow> Position option \<Rightarrow> bool" where
  "hasAnyLegalMoves b clr enPassant =
     list_ex (\<lambda>sq. case cell b (row sq) (col sq) of
                      Some piece \<Rightarrow>
                        color piece = clr \<and> length (getLegalMoves b sq enPassant) > 0
                    | None \<Rightarrow> False) squares"

definition getGameStatus :: "BoardState \<Rightarrow> PieceColor \<Rightarrow> Position option \<Rightarrow> GameStatus" where
  "getGameStatus b turn enPassant =
     (let inCheck = isInCheck b turn;
          hasLegal = hasAnyLegalMoves b turn enPassant
      in \<lparr>isCheck = inCheck,
          isCheckmate = (inCheck \<and> \<not> hasLegal),
          isStalemate = (\<not> inCheck \<and> \<not> hasLegal)\<rparr>)"

section \<open>Move validator helpers (moveValidator.ts)\<close>

text \<open>
  \<^verbatim>\<open>(from.row + to.row) / 2\<close> is a division of JavaScript numbers; it is reached only
  when the rows differ by two, where the sum is even and the quotient is the integer
  \<open>div\<close> gives.
\<close>

definition computeEnPassantTarget ::
  "BoardState \<Rightarrow> Position \<Rightarrow> Position \<Rightarrow> Position option" where
  "computeEnPassantTarget b frm to =
     (case cell b (row frm) (col frm) of
        None \<Rightarrow> None
      | Some piece \<Rightarrow>
          if type piece \<noteq> Pawn then None
          else let rowDiff = \<bar>row to - row frm\<bar>
               in if rowDiff \<noteq> 2 then None
                  else Some \<lparr>row = (row frm + row to) div 2, col = col frm\<rparr>)"

section \<open>Promotion completion (GameContext.tsx)\<close>

record PromotionPending =
  position :: Position
  color_pp :: PieceColor
  from_pp :: Position

text \<open>The state that \<^verbatim>\<open>GameProvider\<close> holds in its \<^verbatim>\<open>useState\<close> cells.\<close>

record Provider =
  gameState :: GameState
  promotionPending :: "PromotionPending option"
  moveHistory :: "string list"
  whiteTime :: int
  blackTime :: int
  isGameOver :: bool
  winner :: "PieceColor option"

definition promotePawn :: "PieceType \<Rightarrow> Provider \<Rightarrow> Provider" where
  "promotePawn pieceType st =
     (case promotionPending st of
        None \<Rightarrow> st
      | Some pending \<Rightarrow>
          let pos = position pending;
              clr = color_pp pending;
              nb = cloneBoard (board (gameState st));
              nb = setCell nb (row pos) (col pos)
                     (Some \<lparr>type = pieceType, color = clr, hasMoved = Some True\<rparr>);
              opp = opponent clr;
              status = getGameStatus nb opp None;
              st = (if isCheckmate status then st\<lparr>isGameOver := True, winner := Some clr\<rparr>
                    else if isStalemate status then st\<lparr>isGameOver := True, winner := None\<rparr>
                    else st)
          in st\<lparr>gameState := (gameState st)
                   \<lparr>board := nb,
                    currentTurn := opp,
                    isCheck := isCheck status,
                    isCheckmate := isCheckmate status,
                    isStalemate := isStalemate status,
                    enPassantTarget := None\<rparr>,
                promotionPending := None\<rparr>)"

section \<open>Example positions\<close>

text \<open>\<^verbatim>\<open>piece(type, color)\<close> of initialBoard.ts, and the same piece once it has moved.\<close>

definition piece :: "PieceType \<Rightarrow> PieceColor \<Rightarrow> ChessPiece option" where
  "piece t c = Some \<lparr>type = t, color = c, hasMoved = Some False\<rparr>"

definition movedPiece :: "PieceType \<Rightarrow> PieceColor \<Rightarrow> ChessPiece option" where
  "movedPiece t c = Some \<lparr>type = t, color = c, hasMoved = Some True\<rparr>"

definition emptyRow :: "ChessPiece option list" where
  "emptyRow = [None, None, None, None, None, None, None, None]"

definition emptyBoard :: BoardState where
  "emptyBoard = [emptyRow, emptyRow, emptyRow, emptyRow, emptyRow, emptyRow, emptyRow, emptyRow]"

text \<open>A white pawn on d5, far from its starting rank.\<close>

definition strayPawnBoard :: BoardState where
  "strayPawnBoard =
     [emptyRow, emptyRow, emptyRow,
      [None, None, None, movedPiece Pawn White, None, None, None, None],
      emptyRow, emptyRow, emptyRow, emptyRow]"

text \<open>Black king a8, white queen b7, white king c6: black is mated.\<close>

definition mateBoard :: BoardState where
  "mateBoard =
     [[movedPiece King Black, None, None, None, None, None, None, None],
      [None, movedPiece Queen White, None, None, None, None, None, None],
      [None, None, movedPiece King White, None, None, None, None, None],
      emptyRow, emptyRow, emptyRow, emptyRow, emptyRow]"

text \<open>A white pawn has just reached a8; the provider waits for the promotion choice.\<close>

definition promotionBoard :: BoardState where
  "promotionBoard =
     [[movedPiece Pawn White, None, None, None, None, None, None, movedPiece King Black],
      emptyRow, emptyRow, emptyRow, emptyRow, emptyRow, emptyRow,
      [None, None, None, None, movedPiece King White, None, None, None]]"

definition promotionState :: Provider where
  "promotionState =
     \<lparr>gameState =
        \<lparr>isCheck = False, isCheckmate = False, isStalemate = False,
         board = promotionBoard, currentTurn = White, selectedSquare = None,
         validMoves = [], enPassantTarget = None,
         capturedPieces = \<lparr>white = [], black = []\<rparr>\<rparr>,
      promotionPending =
        Some \<lparr>position = \<lparr>row = 0, col = 0\<rparr>, color_pp = White,
              from_pp = \<lparr>row = 1, col = 0\<rparr>\<rparr>,
      moveHistory = [''a7-a8''], whiteTime = 600, blackTime = 600,
      isGameOver = False, winner = None\<rparr>"

text \<open>A white pawn on d4 beside a black pawn on e4.\<close>

definition sidewaysBoard :: BoardState where
  "sidewaysBoard =
     [emptyRow, emptyRow, emptyRow, emptyRow,
      [None, None, None, movedPiece Pawn White, movedPiece Pawn Black, None, None, None],
      emptyRow, emptyRow, emptyRow]"

text \<open>
  The black pawn has just played e7-e5 past the white pawn on d5; the en-passant target
  is e6.
\<close>

definition enPassantBoard :: BoardState where
  "enPassantBoard =
     [[None, None, None, None, movedPiece King Black, None, None, None],
      emptyRow, emptyRow,
      [None, None, None, movedPiece Pawn White, movedPiece Pawn Black, None, None, None],
      emptyRow, emptyRow, emptyRow,
      [None, None, None, None, movedPiece King White, None, None, None]]"

text \<open>A white pawn on d4, a black pawn on e5 diagonally ahead of it.\<close>

definition occupiedTargetBoard :: BoardState where
  "occupiedTargetBoard =
     [emptyRow, emptyRow, emptyRow,
      [None, None, None, None, movedPiece Pawn Black, None, None, None],
      [None, None, None, movedPiece Pawn White, None, None, None, None],
      emptyRow, emptyRow, emptyRow]"

text \<open>White may castle on either side.\<close>

definition castlingBoard :: BoardState where
  "castlingBoard =
     [[None, None, None, None, piece King Black, None, None, None],
      emptyRow, emptyRow, emptyRow, emptyRow, emptyRow, emptyRow,
      [piece Rook White, None, None, None, piece King White, None, None, piece Rook White]]"

text \<open>The same white back rank, with a black rook on f8 bearing on f1.\<close>

definition attackedPathBoard :: BoardState where
  "attackedPathBoard =
     [[None, None, None, None, None, movedPiece Rook Black, None, movedPiece King Black],
      emptyRow, emptyRow, emptyRow, emptyRow, emptyRow, emptyRow,
      [piece Rook White, None, None, None, piece King White, None, None, piece Rook White]]"

text \<open>
  The white queen on b7, guarded by its king, attacks a black rook on a8; black has no
  king.
\<close>

definition kinglessBoard :: BoardState where
  "kinglessBoard =
     [[movedPiece Rook Black, None, None, None, None, None, None, None],
      [None, movedPiece Queen White, None, None, None, None, None, None],
      [None, None, movedPiece King White, None, None, None, None, None],
      emptyRow, emptyRow, emptyRow, emptyRow, emptyRow]"

section \<open>The board as a grid of cells\<close>

lemma cloneBoard_id [simp]: "cloneBoard b = b"
proof -
  have "(\<lambda>cl. case cl of Some p \<Rightarrow> Some p | None \<Rightarrow> None) = (\<lambda>cl :: ChessPiece option. cl)"
    by (auto split: option.splits)
  then show ?thesis by (simp add: cloneBoard_def)
qed

lemma cell_in: "wf_board b \<Longrightarrow> isInBounds r c \<Longrightarrow> cell b r c = b ! nat r ! nat c"
  by (auto simp: cell_def isInBounds_def wf_board_def list_all_length)

lemma cell_out: "wf_board b \<Longrightarrow> \<not> isInBounds r c \<Longrightarrow> cell b r c = None"
  by (auto simp: cell_def isInBounds_def wf_board_def list_all_length)

lemma wf_setCell [simp]: "wf_board b \<Longrightarrow> wf_board (setCell b r c v)"
  by (auto simp: wf_board_def setCell_def list_all_length nth_list_update)

lemma cell_setCell:
  assumes "wf_board b"
  shows "cell (setCell b r c v) r' c' =
     (if isInBounds r c \<and> r' = r \<and> c' = c then v else cell b r' c')"
proof (cases "isInBounds r c")
  case False
  then have "setCell b r c v = b"
    using assms by (auto simp: setCell_def isInBounds_def wf_board_def list_all_length)
  with False show ?thesis by simp
next
  case True
  then have rc: "0 \<le> r" "r \<le> 7" "0 \<le> c" "c \<le> 7" by (auto simp: isInBounds_def)
  have lr: "length (b ! nat r) = 8" using assms rc by (auto simp: wf_board_def list_all_length)
  have lb: "length b = 8" using assms by (simp add: wf_board_def)
  have sc: "setCell b r c v = b[nat r := (b ! nat r)[nat c := v]]"
    using rc lr lb by (simp add: setCell_def)
  show ?thesis
  proof (cases "isInBounds r' c'")
    case False
    then show ?thesis using True cell_out[OF assms False] cell_out[OF wf_setCell[OF assms] False]
      by auto
  next
    case T2: True
    then have rc': "0 \<le> r'" "r' \<le> 7" "0 \<le> c'" "c' \<le> 7" by (auto simp: isInBounds_def)
    have "cell (setCell b r c v) r' c' = setCell b r c v ! nat r' ! nat c'"
      by (rule cell_in[OF wf_setCell[OF assms] T2])
    also have "\<dots> = (if r' = r \<and> c' = c then v else b ! nat r' ! nat c')"
      using rc rc' lr lb unfolding sc by (auto simp: nth_list_update)
    finally show ?thesis using True cell_in[OF assms T2] by simp
  qed
qed

lemma board_ext:
  assumes "wf_board b" "wf_board b'"
    and "\<And>r c. isInBounds r c \<Longrightarrow> cell b r c = cell b' r c"
  shows "b = b'"
proof (rule nth_equalityI)
  show "length b = length b'" using assms by (simp add: wf_board_def)
next
  fix i assume i: "i < length b"
  then have i8: "i < 8" using assms by (simp add: wf_board_def)
  have li: "length (b ! i) = 8" "length (b' ! i) = 8"
    using assms i8 by (auto simp: wf_board_def list_all_length)
  show "b ! i = b' ! i"
  proof (rule nth_equalityI)
    show "length (b ! i) = length (b' ! i)" using li by simp
  next
    fix j assume "j < length (b ! i)"
    then have j8: "j < 8" using li by simp
    have "isInBounds (int i) (int j)" using i8 j8 by (simp add: isInBounds_def)
    from assms(3)[OF this] show "b ! i ! j = b' ! i ! j"
      using assms(1,2) i8 j8 li by (simp add: cell_def wf_board_def)
  qed
qed

lemma set_squares: "set squares = {sq. isInBounds (row sq) (col sq)}"
proof (rule set_eqI)
  fix x
  have "x \<in> set squares \<longleftrightarrow> (\<exists>r\<in>{0..7}. \<exists>c\<in>{0..7}. x = \<lparr>row = r, col = c\<rparr>)"
    unfolding squares_def set_concat set_map set_upto image_image
    by (simp only: UN_iff image_iff set_map set_upto)
  also have "\<dots> \<longleftrightarrow> isInBounds (row x) (col x)"
    by (cases x) (simp add: isInBounds_def)
  finally show "x \<in> set squares \<longleftrightarrow> x \<in> {sq. isInBounds (row sq) (col sq)}" by simp
qed

lemma in_squares [simp]: "sq \<in> set squares \<longleftrightarrow> isInBounds (row sq) (col sq)"
  by (simp add: set_squares)

section \<open>Moves computed on the example positions\<close>

lemma wf_emptyBoard: "wf_board emptyBoard"
  by (simp add: wf_board_def emptyBoard_def emptyRow_def)

lemma wf_strayPawnBoard: "wf_board strayPawnBoard"
  by (simp add: wf_board_def strayPawnBoard_def emptyRow_def)

lemma wf_mateBoard: "wf_board mateBoard"
  by (simp add: wf_board_def mateBoard_def emptyRow_def)

lemma wf_castlingBoard: "wf_board castlingBoard"
  by (simp add: wf_board_def castlingBoard_def emptyRow_def)

lemma wf_enPassantBoard: "wf_board enPassantBoard"
  by (simp add: wf_board_def enPassantBoard_def emptyRow_def)

lemma castlingBoard_castles:
  "\<lparr>row = 7, col = 6\<rparr> \<in> set (getLegalMoves castlingBoard \<lparr>row = 7, col = 4\<rparr> None)"
  by code_simp

lemma enPassantBoard_captures:
  "\<lparr>row = 2, col = 4\<rparr> \<in> set (getLegalMoves enPassantBoard \<lparr>row = 3, col = 3\<rparr>
                                   (Some \<lparr>row = 2, col = 4\<rparr>))"
  by code_simp

section \<open>The en-passant target after a move\<close>

text \<open>
  Claim C10. On a board with a pawn on the square \<open>frm\<close> and a destination two rows away,
  \<^verbatim>\<open>computeEnPassantTarget\<close> answers the square \<open>((frm.row + to.row) / 2, frm.col)\<close>,
  whatever the rank, the direction or the column of the move; in every other case (no
  piece on \<open>frm\<close>, another kind of piece, another row difference) it answers null. The
  division is exact where it is reached.
\<close>

theorem computeEnPassantTarget_spec:
  assumes "wf_board b" and "isInBounds (row frm) (col frm)"
  shows "computeEnPassantTarget b frm to =
     (if (\<exists>p. cell b (row frm) (col frm) = Some p \<and> type p = Pawn) \<and> \<bar>row to - row frm\<bar> = 2
      then Some \<lparr>row = (row frm + row to) div 2, col = col frm\<rparr>
      else None)
   \<and> (\<bar>row to - row frm\<bar> = 2 \<longrightarrow> 2 * ((row frm + row to) div 2) = row frm + row to)"
proof -
  have "\<bar>row to - row frm\<bar> = 2 \<longrightarrow> 2 * ((row frm + row to) div 2) = row frm + row to"
    by presburger
  then show ?thesis
    by (auto simp: computeEnPassantTarget_def Let_def split: option.splits)
qed

text \<open>
  The white pawn on d5 "moving" backwards and sideways to g3 still yields d4; one row
  away, or from an empty square, the answer is null.
\<close>

theorem computeEnPassantTarget_spec_witness:
  "wf_board strayPawnBoard
   \<and> computeEnPassantTarget strayPawnBoard \<lparr>row = 3, col = 3\<rparr> \<lparr>row = 5, col = 6\<rparr>
     = Some \<lparr>row = 4, col = 3\<rparr>
   \<and> computeEnPassantTarget strayPawnBoard \<lparr>row = 3, col = 3\<rparr> \<lparr>row = 4, col = 3\<rparr> = None
   \<and> computeEnPassantTarget strayPawnBoard \<lparr>row = 2, col = 2\<rparr> \<lparr>row = 4, col = 2\<rparr> = None"
proof -
  have c: "cell strayPawnBoard 3 3 = movedPiece Pawn White" "cell strayPawnBoard 2 2 = None"
    by (simp_all add: strayPawnBoard_def cell_def emptyRow_def)
  note w = wf_strayPawnBoard
  have i: "isInBounds (row \<lparr>row = 3, col = 3\<rparr>) (col \<lparr>row = 3, col = 3\<rparr>)"
    "isInBounds (row \<lparr>row = 2, col = 2\<rparr>) (col \<lparr>row = 2, col = 2\<rparr>)"
    by (simp_all add: isInBounds_def)
  show ?thesis
    using computeEnPassantTarget_spec[OF w i(1), of "\<lparr>row = 5, col = 6\<rparr>"]
          computeEnPassantTarget_spec[OF w i(1), of "\<lparr>row = 4, col = 3\<rparr>"]
          computeEnPassantTarget_spec[OF w i(2), of "\<lparr>row = 4, col = 2\<rparr>"]
    by (simp add: c w movedPiece_def)
qed

section \<open>Check on a board without a king\<close>

lemma findKing_emptyBoard: "findKing emptyBoard White = None"
  by code_simp

text \<open>
  Claim C5 says that \<^verbatim>\<open>isInCheck\<close> fails when the colour has no king. On the empty
  board no king is found and the call returns \<^verbatim>\<open>false\<close>.
\<close>

theorem isInCheck_no_king_counterexample:
  "wf_board emptyBoard \<and> findKing emptyBoard White = None \<and> isInCheck emptyBoard White = False"
  by (simp add: wf_emptyBoard findKing_emptyBoard isInCheck_def)

lemma findKing_None_iff:
  "findKing b clr = None \<longleftrightarrow>
     (\<forall>(sq :: Position) p. isInBounds (row sq) (col sq) \<and> cell b (row sq) (col sq) = Some p
             \<longrightarrow> \<not> (type p = King \<and> color p = clr))"
proof
  assume n: "findKing b clr = None"
  show "\<forall>(sq :: Position) p. isInBounds (row sq) (col sq) \<and> cell b (row sq) (col sq) = Some p
             \<longrightarrow> \<not> (type p = King \<and> color p = clr)"
  proof (intro allI impI)
    fix sq :: Position and p
    assume a: "isInBounds (row sq) (col sq) \<and> cell b (row sq) (col sq) = Some p"
    then have "sq \<in> set squares" by simp
    with n a show "\<not> (type p = King \<and> color p = clr)"
      unfolding findKing_def find_None_iff by (auto split: option.splits)
  qed
next
  assume a: "\<forall>(sq :: Position) p. isInBounds (row sq) (col sq) \<and> cell b (row sq) (col sq) = Some p
             \<longrightarrow> \<not> (type p = King \<and> color p = clr)"
  show "findKing b clr = None"
    unfolding findKing_def find_None_iff
  proof (intro notI, elim exE conjE)
    fix sq
    assume s: "sq \<in> set squares"
      and k: "case cell b (row sq) (col sq) of None \<Rightarrow> False
              | Some q \<Rightarrow> type q = King \<and> color q = clr"
    from k obtain q where "cell b (row sq) (col sq) = Some q" "type q = King" "color q = clr"
      by (cases "cell b (row sq) (col sq)") auto
    with a s show False by auto
  qed
qed

lemma cell_in_concat: "cell b r c = Some p \<Longrightarrow> Some p \<in> set (concat b)"
proof -
  assume a: "cell b r c = Some p"
  then have r: "nat r < length b" and c: "nat c < length (b ! nat r)"
    and v: "b ! nat r ! nat c = Some p"
    by (auto simp: cell_def split: if_splits)
  from c v have "Some p \<in> set (b ! nat r)" by (metis nth_mem)
  moreover from r have "b ! nat r \<in> set b" by simp
  ultimately show ?thesis by auto
qed

lemma wf_kinglessBoard: "wf_board kinglessBoard"
  by (simp add: wf_board_def kinglessBoard_def emptyRow_def)

text \<open>
  Claim C5, amended. On every board on which no square holds a king of the queried
  colour, \<^verbatim>\<open>isInCheck\<close> returns \<^verbatim>\<open>false\<close>: \<^verbatim>\<open>findKing\<close> finds nothing, and the
  guard \<^verbatim>\<open>if (!kingPos) return false\<close> answers before the attack oracle is asked. No
  error is raised.
\<close>

theorem isInCheck_no_king:
  assumes "wf_board b"
    and "\<And>r c p. isInBounds r c \<Longrightarrow> cell b r c = Some p \<Longrightarrow> \<not> (type p = King \<and> color p = clr)"
  shows "isInCheck b clr = False"
proof -
  have "\<forall>(sq :: Position) p. isInBounds (row sq) (col sq) \<and> cell b (row sq) (col sq) = Some p
             \<longrightarrow> \<not> (type p = King \<and> color p = clr)"
    using assms(2) by blast
  then have "findKing b clr = None" by (simp only: findKing_None_iff)
  then show ?thesis by (simp add: isInCheck_def)
qed

text \<open>
  Black has a rook under attack and no king: black is not in check.
\<close>

theorem isInCheck_no_king_witness:
  "wf_board kinglessBoard
   \<and> cell kinglessBoard 0 0 = movedPiece Rook Black
   \<and> isSquareAttacked kinglessBoard \<lparr>row = 0, col = 0\<rparr> (opponent Black)
   \<and> isInCheck kinglessBoard Black = False"
proof -
  have c: "cell kinglessBoard 0 0 = movedPiece Rook Black"
    by (simp add: kinglessBoard_def cell_def)
  have a: "isSquareAttacked kinglessBoard \<lparr>row = 0, col = 0\<rparr> (opponent Black)"
    by code_simp
  have s: "set (concat kinglessBoard)
             = {None, movedPiece Rook Black, movedPiece Queen White, movedPiece King White}"
    by (auto simp: kinglessBoard_def emptyRow_def)
  have "isInCheck kinglessBoard Black = False"
  proof (rule isInCheck_no_king[OF wf_kinglessBoard])
    fix r c p
    assume "cell kinglessBoard r c = Some p"
    from cell_in_concat[OF this] show "\<not> (type p = King \<and> color p = Black)"
      unfolding s by (auto simp: movedPiece_def)
  qed
  with wf_kinglessBoard c a show ?thesis by simp
qed

section \<open>Game status\<close>

lemma hasAnyLegalMoves_iff:
  "hasAnyLegalMoves b clr ep \<longleftrightarrow>
     (\<exists>sq p. isInBounds (row sq) (col sq) \<and> cell b (row sq) (col sq) = Some p \<and>
             color p = clr \<and> getLegalMoves b sq ep \<noteq> [])"
  unfolding hasAnyLegalMoves_def list_ex_iff
  by (auto split: option.splits)

text \<open>
  Claim C4. The status that \<^verbatim>\<open>getGameStatus\<close> returns never has \<open>isCheckmate\<close> and
  \<open>isStalemate\<close> both true; \<open>isCheck\<close> is \<^verbatim>\<open>isInCheck\<close>; \<open>isCheckmate\<close> holds exactly
  when \<open>isCheck\<close> holds and no piece of the colour on the board has a legal move, and
  \<open>isStalemate\<close> exactly when \<open>isCheck\<close> does not hold and no such piece has one.
\<close>

theorem getGameStatus_exclusive:
  assumes "wf_board b"
  shows "\<not> (isCheckmate (getGameStatus b clr ep) \<and> isStalemate (getGameStatus b clr ep))
   \<and> isCheck (getGameStatus b clr ep) = isInCheck b clr
   \<and> (isCheckmate (getGameStatus b clr ep) \<longleftrightarrow>
        isCheck (getGameStatus b clr ep) \<and>
        (\<forall>sq p. isInBounds (row sq) (col sq) \<and> cell b (row sq) (col sq) = Some p \<and> color p = clr
                 \<longrightarrow> getLegalMoves b sq ep = []))
   \<and> (isStalemate (getGameStatus b clr ep) \<longleftrightarrow>
        \<not> isCheck (getGameStatus b clr ep) \<and>
        (\<forall>sq p. isInBounds (row sq) (col sq) \<and> cell b (row sq) (col sq) = Some p \<and> color p = clr
                 \<longrightarrow> getLegalMoves b sq ep = []))"
  unfolding getGameStatus_def Let_def hasAnyLegalMoves_iff by auto

text \<open>
  On the mate position the flag \<open>isCheckmate\<close> is computed true, and the theorem gives
  that the black king is in check and has no legal move.
\<close>

theorem getGameStatus_exclusive_witness:
  "wf_board mateBoard
   \<and> isCheckmate (getGameStatus mateBoard Black None)
   \<and> \<not> isStalemate (getGameStatus mateBoard Black None)
   \<and> isInCheck mateBoard Black
   \<and> cell mateBoard 0 0 = movedPiece King Black
   \<and> getLegalMoves mateBoard \<lparr>row = 0, col = 0\<rparr> None = []"
proof -
  have cm: "isCheckmate (getGameStatus mateBoard Black None)" by code_simp
  have k: "cell mateBoard 0 0 = movedPiece King Black" by code_simp
  have ib: "isInBounds (row \<lparr>row = 0, col = 0\<rparr>) (col \<lparr>row = 0, col = 0\<rparr>)"
    by (simp add: isInBounds_def)
  from getGameStatus_exclusive[OF wf_mateBoard, of Black None] cm k ib wf_mateBoard
  show ?thesis
    by (auto simp: movedPiece_def)
qed

section \<open>Promotion completion\<close>

lemma wf_promotionBoard: "wf_board promotionBoard"
  by (simp add: wf_board_def promotionBoard_def emptyRow_def)

text \<open>
  Claim C6 says that the kinds king and pawn are rejected and leave the board unchanged.
  With a promotion pending on a8, \<^verbatim>\<open>promotePawn("king")\<close> puts a white king there.
\<close>

theorem promotePawn_rejects_counterexample:
  "promotionPending promotionState \<noteq> None
   \<and> cell (board (gameState promotionState)) 0 0 = movedPiece Pawn White
   \<and> cell (board (gameState (promotePawn King promotionState))) 0 0
       = Some \<lparr>type = King, color = White, hasMoved = Some True\<rparr>
   \<and> board (gameState (promotePawn King promotionState)) \<noteq> board (gameState promotionState)"
proof -
  have p: "promotionPending promotionState \<noteq> None" by (simp add: promotionState_def)
  have c0: "cell (board (gameState promotionState)) 0 0 = movedPiece Pawn White"
    by (simp add: promotionState_def promotionBoard_def cell_def)
  have c1: "cell (board (gameState (promotePawn King promotionState))) 0 0
       = Some \<lparr>type = King, color = White, hasMoved = Some True\<rparr>"
    by (simp add: promotePawn_def Let_def promotionState_def cell_setCell wf_promotionBoard
        isInBounds_def)
  from c0 c1
  have "board (gameState (promotePawn King promotionState)) \<noteq> board (gameState promotionState)"
    by (auto simp: movedPiece_def)
  with p c0 c1 show ?thesis by simp
qed

text \<open>
  Claim C6, amended. Promotion completion rejects no kind: for every pending promotion
  and every kind supplied, king and pawn included, the cell of the promotion square
  becomes a piece of that kind in the pending colour with \<open>hasMoved = true\<close>, every other
  cell keeps its content, and the pending promotion is cleared.
\<close>

theorem promotePawn_replaces:
  assumes "promotionPending st = Some pending"
    and "wf_board (board (gameState st))"
    and "isInBounds (row (position pending)) (col (position pending))"
  shows "cell (board (gameState (promotePawn kind st)))
              (row (position pending)) (col (position pending))
           = Some \<lparr>type = kind, color = color_pp pending, hasMoved = Some True\<rparr>
         \<and> (\<forall>r c. (r, c) \<noteq> (row (position pending), col (position pending)) \<longrightarrow>
               cell (board (gameState (promotePawn kind st))) r c
                 = cell (board (gameState st)) r c)
         \<and> promotionPending (promotePawn kind st) = None"
  using assms by (simp add: promotePawn_def Let_def cell_setCell)

theorem promotePawn_replaces_witness:
  "promotionPending promotionState \<noteq> None
   \<and> cell (board (gameState (promotePawn Pawn promotionState))) 0 0
       = Some \<lparr>type = Pawn, color = White, hasMoved = Some True\<rparr>
   \<and> cell (board (gameState (promotePawn Knight promotionState))) 0 0
       = Some \<lparr>type = Knight, color = White, hasMoved = Some True\<rparr>
   \<and> cell (board (gameState (promotePawn Knight promotionState))) 0 7 = movedPiece King Black
   \<and> promotionPending (promotePawn Knight promotionState) = None"
proof -
  have a: "promotionPending promotionState =
             Some \<lparr>position = \<lparr>row = 0, col = 0\<rparr>, color_pp = White,
                   from_pp = \<lparr>row = 1, col = 0\<rparr>\<rparr>"
    by (simp add: promotionState_def)
  have w: "wf_board (board (gameState promotionState))"
    by (simp add: promotionState_def wf_promotionBoard)
  have i: "isInBounds
             (row (position \<lparr>position = \<lparr>row = 0, col = 0\<rparr>, color_pp = White,
                             from_pp = \<lparr>row = 1, col = 0\<rparr>\<rparr>))
             (col (position \<lparr>position = \<lparr>row = 0, col = 0\<rparr>, color_pp = White,
                             from_pp = \<lparr>row = 1, col = 0\<rparr>\<rparr>))"
    by (simp add: isInBounds_def)
  have k: "cell (board (gameState promotionState)) 0 7 = movedPiece King Black"
    by (simp add: promotionState_def promotionBoard_def cell_def)
  from promotePawn_replaces[OF a w i, of Pawn] promotePawn_replaces[OF a w i, of Knight] a k
  show ?thesis by simp
qed

section \<open>Destinations stay on the board\<close>

declare slide.simps [simp del]

lemma slide_in_bounds:
  "m \<in> set (slide b clr r c dr dc) \<Longrightarrow> isInBounds (row m) (col m)"
proof (induction b clr r c dr dc rule: slide.induct)
  case (1 b clr r c dr dc)
  show ?case
  proof (cases "isInBounds r c \<and> (dr \<noteq> 0 \<or> dc \<noteq> 0)")
    case False
    with "1.prems" show ?thesis by (subst (asm) slide.simps) auto
  next
    case True
    show ?thesis
    proof (cases "cell b r c")
      case None
      with True "1.prems"
      have "m = \<lparr>row = r, col = c\<rparr> \<or> m \<in> set (slide b clr (r + dr) (c + dc) dr dc)"
        by (subst (asm) slide.simps) auto
      with True "1.IH"[OF True None] show ?thesis by auto
    next
      case (Some t)
      with True "1.prems" have "m = \<lparr>row = r, col = c\<rparr>"
        by (subst (asm) slide.simps) (auto split: if_splits)
      with True show ?thesis by simp
    qed
  qed
qed

lemma stepTo_in_bounds: "m \<in> set (stepTo b clr r c) \<Longrightarrow> isInBounds (row m) (col m)"
  by (auto simp: stepTo_def split: option.splits if_splits)

lemma getRookMoves_in_bounds:
  "m \<in> set (getRookMoves b pos clr) \<Longrightarrow> isInBounds (row m) (col m)"
  by (auto simp: getRookMoves_def dest: slide_in_bounds)

lemma getBishopMoves_in_bounds:
  "m \<in> set (getBishopMoves b pos clr) \<Longrightarrow> isInBounds (row m) (col m)"
  by (auto simp: getBishopMoves_def dest: slide_in_bounds)

lemma getKnightMoves_in_bounds:
  "m \<in> set (getKnightMoves b pos clr) \<Longrightarrow> isInBounds (row m) (col m)"
  by (auto simp: getKnightMoves_def dest: stepTo_in_bounds)

lemma getKingMovesRaw_in_bounds:
  "m \<in> set (getKingMovesRaw b pos clr) \<Longrightarrow> isInBounds (row m) (col m)"
  by (auto simp: getKingMovesRaw_def dest: stepTo_in_bounds)

lemma pawnForward_cases:
  assumes "m \<in> set (pawnForward b r c dir startRow)"
  shows "isInBounds (r + dir) c \<and> cell b (r + dir) c = None \<and>
         (m = \<lparr>row = r + dir, col = c\<rparr> \<or>
          m = \<lparr>row = r + 2 * dir, col = c\<rparr> \<and> r = startRow \<and> cell b (r + 2 * dir) c = None)"
  using assms by (auto simp: pawnForward_def split: if_splits)

lemma pawnCapture_cases:
  assumes "m \<in> set (pawnCapture b clr ep nr nc)"
  shows "isInBounds nr nc \<and> m = \<lparr>row = nr, col = nc\<rparr> \<and>
         ((\<exists>t. cell b nr nc = Some t \<and> color t \<noteq> clr) \<or> ep = Some m)"
  using assms
  by (cases "cell b nr nc"; cases ep) (auto simp: pawnCapture_def split: if_splits)

lemma getPawnMoves_set:
  "set (getPawnMoves b pos clr ep) =
     set (pawnForward b (row pos) (col pos) (if clr = White then - 1 else 1)
            (if clr = White then 6 else 1))
     \<union> set (pawnCapture b clr ep (row pos + (if clr = White then - 1 else 1)) (col pos + - 1))
     \<union> set (pawnCapture b clr ep (row pos + (if clr = White then - 1 else 1)) (col pos + 1))"
  by (simp only: getPawnMoves_def Let_def list.map concat.simps append_Nil2 set_append Un_assoc)

lemma getPawnMoves_in_bounds:
  assumes "m \<in> set (getPawnMoves b pos clr ep)"
  shows "isInBounds (row m) (col m)"
proof -
  from assms consider
      "m \<in> set (pawnForward b (row pos) (col pos) (if clr = White then - 1 else 1)
                  (if clr = White then 6 else 1))"
    | "m \<in> set (pawnCapture b clr ep (row pos + (if clr = White then - 1 else 1)) (col pos + - 1))"
    | "m \<in> set (pawnCapture b clr ep (row pos + (if clr = White then - 1 else 1)) (col pos + 1))"
    unfolding getPawnMoves_set by blast
  then show ?thesis
  proof cases
    case 1
    from pawnForward_cases[OF this] show ?thesis
      by (auto simp: isInBounds_def split: if_splits)
  next
    case 2
    from pawnCapture_cases[OF this] show ?thesis by auto
  next
    case 3
    from pawnCapture_cases[OF this] show ?thesis by auto
  qed
qed

lemma getRawMoves_in_bounds:
  "isInBounds (row m) (col m)" if "m \<in> set (getRawMoves b pos ep)"
proof (cases "cell b (row pos) (col pos)")
  case None
  then show ?thesis using that by (simp add: getRawMoves_def)
next
  case (Some p)
  then show ?thesis using that
    by (cases "type p")
       (auto simp: getRawMoves_def getQueenMoves_def
          dest: getPawnMoves_in_bounds getRookMoves_in_bounds getBishopMoves_in_bounds
            getKnightMoves_in_bounds getKingMovesRaw_in_bounds)
qed

lemma castleKingside_subset: "set (castleKingside b rw opp) \<subseteq> {\<lparr>row = rw, col = 6\<rparr>}"
  by (auto simp: castleKingside_def split: option.splits if_splits)

lemma castleQueenside_subset: "set (castleQueenside b rw opp) \<subseteq> {\<lparr>row = rw, col = 2\<rparr>}"
  by (auto simp: castleQueenside_def split: option.splits if_splits)

lemma getCastlingMoves_in_bounds:
  "m \<in> set (getCastlingMoves b pos clr) \<Longrightarrow> isInBounds (row m) (col m)"
  using castleKingside_subset[of b "if clr = White then 7 else 0" "opponent clr"]
        castleQueenside_subset[of b "if clr = White then 7 else 0" "opponent clr"]
  by (auto simp: getCastlingMoves_def Let_def isInBounds_def split: option.splits if_splits)

lemma getLegalMoves_Some:
  "cell b (row pos) (col pos) = Some p \<Longrightarrow>
   getLegalMoves b pos ep =
     filter (\<lambda>to. \<not> isInCheck (simulateMove b pos p ep to) (color p))
       (getRawMoves b pos ep @
        (if type p = King then getCastlingMoves b pos (color p) else []))"
  by (simp add: getLegalMoves_def Let_def)

lemma getLegalMoves_subset:
  assumes "m \<in> set (getLegalMoves b pos ep)"
  obtains p where "cell b (row pos) (col pos) = Some p"
    and "m \<in> set (getRawMoves b pos ep) \<or>
         type p = King \<and> m \<in> set (getCastlingMoves b pos (color p))"
    and "\<not> isInCheck (simulateMove b pos p ep m) (color p)"
proof (cases "cell b (row pos) (col pos)")
  case None
  with assms show ?thesis by (simp add: getLegalMoves_def)
next
  case (Some p)
  with assms that[OF Some] show ?thesis
    by (auto simp: getLegalMoves_Some split: if_splits)
qed

text \<open>
  Claim C8. For every board and every square with coordinates in \<open>[0,7]\<close>, and every
  en-passant target, each position returned by \<^verbatim>\<open>getRawMoves\<close>, and each returned by
  \<^verbatim>\<open>getLegalMoves\<close>, has its row and its column in \<open>[0,7]\<close>.
\<close>

theorem moves_in_bounds:
  assumes "wf_board b" and "isInBounds (row pos) (col pos)"
  shows "(\<forall>m \<in> set (getRawMoves b pos ep). isInBounds (row m) (col m))
       \<and> (\<forall>m \<in> set (getLegalMoves b pos ep). isInBounds (row m) (col m))"
  by (auto dest: getRawMoves_in_bounds getCastlingMoves_in_bounds elim!: getLegalMoves_subset)

text \<open>The white queen on b7 of the mate position: its rays end at the edges.\<close>

theorem moves_in_bounds_witness:
  "wf_board mateBoard
   \<and> isInBounds (row \<lparr>row = 1, col = 1\<rparr>) (col \<lparr>row = 1, col = 1\<rparr>)
   \<and> \<lparr>row = 7, col = 1\<rparr> \<in> set (getRawMoves mateBoard \<lparr>row = 1, col = 1\<rparr> None)
   \<and> \<lparr>row = 0, col = 0\<rparr> \<in> set (getLegalMoves mateBoard \<lparr>row = 1, col = 1\<rparr> None)
   \<and> isInBounds (row \<lparr>row = 7, col = 1\<rparr>) (col \<lparr>row = 7, col = 1\<rparr>)
   \<and> isInBounds (row \<lparr>row = 0, col = 0\<rparr>) (col \<lparr>row = 0, col = 0\<rparr>)"
proof -
  note w = wf_mateBoard
  have i: "isInBounds (row \<lparr>row = 1, col = 1\<rparr>) (col \<lparr>row = 1, col = 1\<rparr>)"
    by (simp add: isInBounds_def)
  have r: "\<lparr>row = 7, col = 1\<rparr> \<in> set (getRawMoves mateBoard \<lparr>row = 1, col = 1\<rparr> None)"
    by code_simp
  have l: "\<lparr>row = 0, col = 0\<rparr> \<in> set (getLegalMoves mateBoard \<lparr>row = 1, col = 1\<rparr> None)"
    by code_simp
  from moves_in_bounds[OF w i, of None] r l w i show ?thesis by blast
qed

section \<open>Applying an en-passant capture\<close>

lemma getPawnMoves_row:
  assumes "m \<in> set (getPawnMoves b pos clr ep)"
  shows "row m \<noteq> row pos"
proof -
  from assms consider
      "m \<in> set (pawnForward b (row pos) (col pos) (if clr = White then - 1 else 1)
                  (if clr = White then 6 else 1))"
    | "m \<in> set (pawnCapture b clr ep (row pos + (if clr = White then - 1 else 1)) (col pos + - 1))"
    | "m \<in> set (pawnCapture b clr ep (row pos + (if clr = White then - 1 else 1)) (col pos + 1))"
    unfolding getPawnMoves_set by blast
  then show ?thesis
  proof cases
    case 1
    from pawnForward_cases[OF this] show ?thesis by (auto split: if_splits)
  next
    case 2
    from pawnCapture_cases[OF this] show ?thesis by (auto split: if_splits)
  next
    case 3
    from pawnCapture_cases[OF this] show ?thesis by (auto split: if_splits)
  qed
qed

lemma positionsEqual_iff [simp]: "positionsEqual (a :: Position) b \<longleftrightarrow> a = b"
  by (cases a, cases b) (auto simp: positionsEqual_def)

lemma applyMove_pawn:
  assumes "cell b (row frm) (col frm) = Some p" and "type p = Pawn"
  shows "applyMove b frm to ep =
     Inr \<lparr>newBoard =
            setCell (setCell (if ep = Some to then setCell b (row frm) (col to) None else b)
                       (row to) (col to) (Some (moved p)))
              (row frm) (col frm) None,
          capturedPiece = (if ep = Some to then cell b (row frm) (col to)
                           else cell b (row to) (col to)),
          isPromotion = (row to = 0 \<or> row to = 7),
          isCastling = False,
          isEnPassant = (ep = Some to)\<rparr>"
  using assms by (cases ep) (auto simp: applyMove_def Let_def)

text \<open>
  Claim C3, amended. When \<^verbatim>\<open>applyMove\<close> is called on a board with a pawn on \<open>frm\<close>
  and \<open>to\<close> equal to the en-passant target, it returns a result whose \<open>capturedPiece\<close> is
  the piece that was on \<open>(frm.row, to.col)\<close> and whose \<open>isEnPassant\<close> is true; that square
  is empty in the new board exactly when \<open>to\<close> lies on another row than \<open>frm\<close> or in the
  column of \<open>frm\<close>. Every destination that \<^verbatim>\<open>getRawMoves\<close> gives the pawn lies on
  another row.
\<close>

theorem applyMove_enPassant:
  assumes "wf_board b"
    and "isInBounds (row frm) (col frm)" and "isInBounds (row to) (col to)"
    and "cell b (row frm) (col frm) = Some p" and "type p = Pawn"
    and "positionsEqual to e"
  shows "\<exists>res. applyMove b frm to (Some e) = Inr res
           \<and> capturedPiece res = cell b (row frm) (col to)
           \<and> isEnPassant res
           \<and> (cell (newBoard res) (row frm) (col to) = None
                \<longleftrightarrow> row to \<noteq> row frm \<or> col to = col frm)
           \<and> (to \<in> set (getRawMoves b frm (Some e)) \<longrightarrow> row to \<noteq> row frm)"
proof -
  have e: "e = to" using assms(6) by simp
  have ib: "isInBounds (row frm) (col to)"
    using assms(2,3) by (simp add: isInBounds_def)
  have raw: "to \<in> set (getRawMoves b frm (Some e)) \<longrightarrow> row to \<noteq> row frm"
    using assms(4,5) by (auto simp: getRawMoves_def dest: getPawnMoves_row)
  show ?thesis
    unfolding e applyMove_pawn[OF assms(4,5)]
    using assms(1,2,3) ib raw[unfolded e]
    by (auto simp: cell_setCell)
qed

text \<open>
  Claim C3 says that the square \<open>(frm.row, to.col)\<close> is empty in the new board for every
  call with a pawn on \<open>frm\<close> and \<open>to\<close> the en-passant target. With the target on the pawn's
  own row, d4 to e4, the square is \<open>to\<close> itself and holds the pawn afterwards.
\<close>

theorem applyMove_enPassant_counterexample:
  "cell sidewaysBoard 4 3 = movedPiece Pawn White
   \<and> \<not> isl (applyMove sidewaysBoard \<lparr>row = 4, col = 3\<rparr> \<lparr>row = 4, col = 4\<rparr>
               (Some \<lparr>row = 4, col = 4\<rparr>))
   \<and> isEnPassant (projr (applyMove sidewaysBoard \<lparr>row = 4, col = 3\<rparr> \<lparr>row = 4, col = 4\<rparr>
                          (Some \<lparr>row = 4, col = 4\<rparr>)))
   \<and> capturedPiece (projr (applyMove sidewaysBoard \<lparr>row = 4, col = 3\<rparr> \<lparr>row = 4, col = 4\<rparr>
                            (Some \<lparr>row = 4, col = 4\<rparr>)))
       = movedPiece Pawn Black
   \<and> cell (newBoard (projr (applyMove sidewaysBoard \<lparr>row = 4, col = 3\<rparr> \<lparr>row = 4, col = 4\<rparr>
                             (Some \<lparr>row = 4, col = 4\<rparr>)))) 4 4
       = movedPiece Pawn White"
proof -
  have w: "wf_board sidewaysBoard" by (simp add: wf_board_def sidewaysBoard_def emptyRow_def)
  have c: "cell sidewaysBoard 4 3 = Some \<lparr>type = Pawn, color = White, hasMoved = Some True\<rparr>"
    "cell sidewaysBoard 4 4 = movedPiece Pawn Black"
    by (simp_all add: sidewaysBoard_def cell_def movedPiece_def)
  have "applyMove sidewaysBoard \<lparr>row = 4, col = 3\<rparr> \<lparr>row = 4, col = 4\<rparr> (Some \<lparr>row = 4, col = 4\<rparr>)
        = Inr \<lparr>newBoard =
                 setCell (setCell (setCell sidewaysBoard 4 4 None) 4 4
                            (Some (moved \<lparr>type = Pawn, color = White, hasMoved = Some True\<rparr>)))
                   4 3 None,
               capturedPiece = movedPiece Pawn Black,
               isPromotion = False, isCastling = False, isEnPassant = True\<rparr>"
    using applyMove_pawn[of sidewaysBoard "\<lparr>row = 4, col = 3\<rparr>"
        "\<lparr>type = Pawn, color = White, hasMoved = Some True\<rparr>" "\<lparr>row = 4, col = 4\<rparr>"
        "Some \<lparr>row = 4, col = 4\<rparr>"] c
    by simp
  then show ?thesis
    using c w by (simp add: cell_setCell isInBounds_def moved_def movedPiece_def)
qed

text \<open>The capture d5xe6 en passant removes the black pawn from e5.\<close>

theorem applyMove_enPassant_witness:
  "wf_board enPassantBoard
   \<and> cell enPassantBoard 3 3 = movedPiece Pawn White
   \<and> \<lparr>row = 2, col = 4\<rparr> \<in> set (getLegalMoves enPassantBoard \<lparr>row = 3, col = 3\<rparr>
                                     (Some \<lparr>row = 2, col = 4\<rparr>))
   \<and> \<not> isl (applyMove enPassantBoard \<lparr>row = 3, col = 3\<rparr> \<lparr>row = 2, col = 4\<rparr>
               (Some \<lparr>row = 2, col = 4\<rparr>))
   \<and> isEnPassant (projr (applyMove enPassantBoard \<lparr>row = 3, col = 3\<rparr> \<lparr>row = 2, col = 4\<rparr>
                          (Some \<lparr>row = 2, col = 4\<rparr>)))
   \<and> capturedPiece (projr (applyMove enPassantBoard \<lparr>row = 3, col = 3\<rparr> \<lparr>row = 2, col = 4\<rparr>
                            (Some \<lparr>row = 2, col = 4\<rparr>)))
       = movedPiece Pawn Black
   \<and> cell (newBoard (projr (applyMove enPassantBoard \<lparr>row = 3, col = 3\<rparr> \<lparr>row = 2, col = 4\<rparr>
                             (Some \<lparr>row = 2, col = 4\<rparr>)))) 3 4
       = None"
proof -
  note w = wf_enPassantBoard and l = enPassantBoard_captures
  have c: "cell enPassantBoard 3 3 = Some \<lparr>type = Pawn, color = White, hasMoved = Some True\<rparr>"
    "cell enPassantBoard 3 4 = movedPiece Pawn Black"
    by (simp_all add: enPassantBoard_def cell_def movedPiece_def)
  have i: "isInBounds (row \<lparr>row = 3, col = 3\<rparr>) (col \<lparr>row = 3, col = 3\<rparr>)"
    "isInBounds (row \<lparr>row = 2, col = 4\<rparr>) (col \<lparr>row = 2, col = 4\<rparr>)"
    by (simp_all add: isInBounds_def)
  from applyMove_enPassant[OF w i, of "\<lparr>type = Pawn, color = White, hasMoved = Some True\<rparr>"
      "\<lparr>row = 2, col = 4\<rparr>"] c
  obtain res where
    "applyMove enPassantBoard \<lparr>row = 3, col = 3\<rparr> \<lparr>row = 2, col = 4\<rparr> (Some \<lparr>row = 2, col = 4\<rparr>)
       = Inr res"
    "capturedPiece res = movedPiece Pawn Black" "isEnPassant res"
    "cell (newBoard res) 3 4 = None"
    by (auto simp: positionsEqual_def)
  with w c l show ?thesis by (simp add: movedPiece_def)
qed

section \<open>No destination twice\<close>

lemma slide_form:
  "m \<in> set (slide b clr r c dr dc) \<Longrightarrow>
     \<exists>k::nat. row m = r + int k * dr \<and> col m = c + int k * dc"
proof (induction b clr r c dr dc rule: slide.induct)
  case (1 b clr r c dr dc)
  show ?case
  proof (cases "isInBounds r c \<and> (dr \<noteq> 0 \<or> dc \<noteq> 0)")
    case False
    with "1.prems" show ?thesis by (subst (asm) slide.simps) auto
  next
    case True
    have here: "\<exists>k::nat. r = r + int k * dr \<and> c = c + int k * dc"
      by (rule exI[of _ 0]) simp
    show ?thesis
    proof (cases "cell b r c")
      case None
      with True "1.prems"
      consider "m = \<lparr>row = r, col = c\<rparr>" | "m \<in> set (slide b clr (r + dr) (c + dc) dr dc)"
        by (subst (asm) slide.simps) auto
      then show ?thesis
      proof cases
        case 1
        with here show ?thesis by simp
      next
        case 2
        from "1.IH"[OF True None 2] obtain k :: nat
          where "row m = r + dr + int k * dr" "col m = c + dc + int k * dc" by auto
        then have "row m = r + int (Suc k) * dr \<and> col m = c + int (Suc k) * dc"
          by (simp add: algebra_simps)
        then show ?thesis by blast
      qed
    next
      case (Some t)
      with True "1.prems" have "m = \<lparr>row = r, col = c\<rparr>"
        by (subst (asm) slide.simps) (auto split: if_splits)
      with here show ?thesis by simp
    qed
  qed
qed

lemma slide_ahead:
  assumes "m \<in> set (slide b clr (r + dr) (c + dc) dr dc)"
  obtains k :: nat where "0 < k" "row m = r + int k * dr" "col m = c + int k * dc"
proof -
  from slide_form[OF assms] obtain k :: nat
    where "row m = r + dr + int k * dr" "col m = c + dc + int k * dc" by auto
  then have "row m = r + int (Suc k) * dr" "col m = c + int (Suc k) * dc"
    by (simp_all add: algebra_simps)
  then show ?thesis using that[of "Suc k"] by simp
qed

lemma slide_sgn:
  assumes "m \<in> set (slide b clr (r + dr) (c + dc) dr dc)"
  shows "sgn (row m - r) = sgn dr" and "sgn (col m - c) = sgn dc"
proof -
  from assms obtain k :: nat
    where k: "0 < k" "row m = r + int k * dr" "col m = c + int k * dc"
    by (rule slide_ahead)
  from k show "sgn (row m - r) = sgn dr" by (simp add: sgn_mult)
  from k show "sgn (col m - c) = sgn dc" by (simp add: sgn_mult)
qed

lemma slide_distinct: "distinct (slide b clr r c dr dc)"
proof (induction b clr r c dr dc rule: slide.induct)
  case (1 b clr r c dr dc)
  show ?case
  proof (cases "isInBounds r c \<and> (dr \<noteq> 0 \<or> dc \<noteq> 0)")
    case False
    then show ?thesis by (subst slide.simps) auto
  next
    case True
    show ?thesis
    proof (cases "cell b r c")
      case None
      have "\<lparr>row = r, col = c\<rparr> \<notin> set (slide b clr (r + dr) (c + dc) dr dc)"
      proof
        assume "\<lparr>row = r, col = c\<rparr> \<in> set (slide b clr (r + dr) (c + dc) dr dc)"
        then obtain k :: nat where "0 < k" "r = r + int k * dr" "c = c + int k * dc"
          by (rule slide_ahead) auto
        with True show False by auto
      qed
      with "1.IH"[OF True None] True None show ?thesis
        by (subst slide.simps) simp
    next
      case (Some t)
      with True show ?thesis by (subst slide.simps) simp
    qed
  qed
qed

lemma distinct_concat_map:
  assumes "distinct xs"
    and "\<And>x. x \<in> set xs \<Longrightarrow> distinct (f x)"
    and "\<And>x y m. x \<in> set xs \<Longrightarrow> y \<in> set xs \<Longrightarrow> m \<in> set (f x) \<Longrightarrow> m \<in> set (f y) \<Longrightarrow> x = y"
  shows "distinct (concat (map f xs))"
  using assms
proof (induction xs)
  case Nil
  then show ?case by simp
next
  case (Cons a xs)
  have "distinct (concat (map f xs))"
    by (rule Cons.IH) (use Cons.prems in auto)
  moreover have "distinct (f a)" using Cons.prems(2) by simp
  moreover have "set (f a) \<inter> (\<Union>x\<in>set xs. set (f x)) = {}"
  proof -
    { fix m x assume "m \<in> set (f a)" "x \<in> set xs" "m \<in> set (f x)"
      then have "a = x" using Cons.prems(3)[of a x m] by simp
      with \<open>x \<in> set xs\<close> Cons.prems(1) have False by simp }
    then show ?thesis by blast
  qed
  ultimately show ?case by simp
qed

lemma slides_sgn:
  assumes "m \<in> set (case d of (dr, dc) \<Rightarrow> slide b clr (row pos + dr) (col pos + dc) dr dc)"
  shows "sgn (row m - row pos) = sgn (fst d)" and "sgn (col m - col pos) = sgn (snd d)"
  using assms by (cases d; simp add: slide_sgn)+

lemma slides_distinct:
  assumes "distinct ds" and "\<And>d. d \<in> set ds \<Longrightarrow> sgn (fst d) = fst d \<and> sgn (snd d) = snd d"
  shows "distinct (concat (map (\<lambda>(dr, dc). slide b clr (row pos + dr) (col pos + dc) dr dc) ds))"
proof (rule distinct_concat_map, goal_cases)
  case 1
  show ?case by (rule assms(1))
next
  case (2 x)
  show ?case by (cases x) (simp add: slide_distinct)
next
  case (3 x y m)
  from slides_sgn[OF 3(3)] slides_sgn[OF 3(4)] assms(2)[OF 3(1)] assms(2)[OF 3(2)]
  show ?case by (simp add: prod_eq_iff)
qed

lemma getRookMoves_distinct: "distinct (getRookMoves b pos clr)"
  unfolding getRookMoves_def by (rule slides_distinct) auto

lemma getBishopMoves_distinct: "distinct (getBishopMoves b pos clr)"
  unfolding getBishopMoves_def by (rule slides_distinct) auto

lemma getRookMoves_line:
  assumes "m \<in> set (getRookMoves b pos clr)"
  shows "row m = row pos \<or> col m = col pos"
proof -
  from assms obtain d where d: "d \<in> set [(- 1, 0), (1, 0), (0, - 1), (0, 1 :: int)]"
    and m: "m \<in> set (case d of (dr, dc) \<Rightarrow> slide b clr (row pos + dr) (col pos + dc) dr dc)"
    unfolding getRookMoves_def set_concat set_map by blast
  from slides_sgn[OF m] d show ?thesis by (auto simp: sgn_if split: if_splits)
qed

lemma getBishopMoves_diagonal:
  assumes "m \<in> set (getBishopMoves b pos clr)"
  shows "row m \<noteq> row pos \<and> col m \<noteq> col pos"
proof -
  from assms obtain d where d: "d \<in> set [(- 1, - 1), (- 1, 1), (1, - 1), (1, 1 :: int)]"
    and m: "m \<in> set (case d of (dr, dc) \<Rightarrow> slide b clr (row pos + dr) (col pos + dc) dr dc)"
    unfolding getBishopMoves_def set_concat set_map by blast
  from slides_sgn[OF m] d show ?thesis by (auto simp: sgn_if split: if_splits)
qed

lemma getQueenMoves_distinct: "distinct (getQueenMoves b pos clr)"
  using getRookMoves_line[of _ b pos clr] getBishopMoves_diagonal[of _ b pos clr]
  by (auto simp: getQueenMoves_def getRookMoves_distinct getBishopMoves_distinct)

lemma stepTo_distinct: "distinct (stepTo b clr r c)"
  by (auto simp: stepTo_def split: option.splits)

lemma stepTo_eq: "m \<in> set (stepTo b clr r c) \<Longrightarrow> row m = r \<and> col m = c"
  by (auto simp: stepTo_def split: option.splits if_splits)

lemma getKnightMoves_distinct: "distinct (getKnightMoves b pos clr)"
  unfolding getKnightMoves_def
proof (rule distinct_concat_map, goal_cases)
  case 1
  show ?case by simp
next
  case (2 x)
  then show ?case by (auto simp: stepTo_distinct)
next
  case (3 x y m)
  then show ?case by (auto dest!: stepTo_eq)
qed

lemma getKingMovesRaw_distinct: "distinct (getKingMovesRaw b pos clr)"
  unfolding getKingMovesRaw_def
proof (rule distinct_concat_map, goal_cases)
  case 1
  show ?case by simp
next
  case (2 dr)
  show ?case
  proof (rule distinct_concat_map, goal_cases)
    case 1
    show ?case by simp
  next
    case (2 dc)
    then show ?case by (simp add: stepTo_distinct)
  next
    case (3 x y m)
    then show ?case by (auto dest!: stepTo_eq split: if_splits)
  qed
next
  case (3 x y m)
  then show ?case by (auto dest!: stepTo_eq split: if_splits)
qed

lemma pawnForward_distinct: "dir \<noteq> 0 \<Longrightarrow> distinct (pawnForward b r c dir startRow)"
  by (simp add: pawnForward_def)

lemma pawnCapture_distinct:
  assumes "\<And>e t. ep = Some e \<Longrightarrow> cell b (row e) (col e) = Some t \<Longrightarrow> color t = clr"
  shows "distinct (pawnCapture b clr ep nr nc)"
proof (cases "cell b nr nc")
  case None
  then show ?thesis by (simp add: pawnCapture_def split: option.splits)
next
  case (Some t)
  show ?thesis
  proof (cases ep)
    case None
    then show ?thesis by (simp add: pawnCapture_def split: option.splits)
  next
    case e: (Some e)
    show ?thesis
    proof (cases "row e = nr \<and> col e = nc")
      case True
      with assms[OF e, of t] Some have "color t = clr" by simp
      with Some e show ?thesis by (simp add: pawnCapture_def)
    next
      case False
      with Some e show ?thesis by (simp add: pawnCapture_def)
    qed
  qed
qed

lemma getPawnMoves_distinct:
  assumes "\<And>e t. ep = Some e \<Longrightarrow> cell b (row e) (col e) = Some t \<Longrightarrow> color t = clr"
  shows "distinct (getPawnMoves b pos clr ep)"
proof -
  define dir :: int where "dir = (if clr = White then - 1 else 1)"
  define F where "F = pawnForward b (row pos) (col pos) dir (if clr = White then 6 else 1)"
  define D where "D = (\<lambda>dc. pawnCapture b clr ep (row pos + dir) (col pos + dc))"
  have eq: "getPawnMoves b pos clr ep = F @ D (- 1) @ D 1"
    by (simp only: getPawnMoves_def Let_def F_def D_def dir_def list.map concat.simps
        append_Nil2)
  have dir: "dir \<noteq> 0" by (simp add: dir_def)
  have dF: "distinct F" unfolding F_def by (rule pawnForward_distinct[OF dir])
  have cF: "col m = col pos" if "m \<in> set F" for m
    using pawnForward_cases[OF that[unfolded F_def]] by auto
  have cD: "col m = col pos + dc" if "m \<in> set (D dc)" for m dc
    using pawnCapture_cases[OF that[unfolded D_def]] by auto
  have dD: "distinct (D dc)" for dc
    unfolding D_def by (rule pawnCapture_distinct) (rule assms)
  have "set F \<inter> set (D (- 1)) = {}" "set F \<inter> set (D 1) = {}"
    "set (D (- 1)) \<inter> set (D 1) = {}"
    using cF cD[of _ "- 1"] cD[of _ 1] by fastforce+
  with dF dD[of "- 1"] dD[of 1] show ?thesis
    unfolding eq by auto
qed

text \<open>
  Claim C7, amended. For every board, square and en-passant target such that the
  en-passant target, when there is one, is not a square holding a piece of the colour
  opposite to the piece on the queried square (so whenever the target square is empty,
  as the square skipped by a double step is), the list returned by \<^verbatim>\<open>getRawMoves\<close>
  contains no destination twice.
\<close>

theorem getRawMoves_distinct:
  assumes "wf_board b" and "isInBounds (row pos) (col pos)"
    and "\<And>e p t. ep = Some e \<Longrightarrow> cell b (row pos) (col pos) = Some p \<Longrightarrow>
           cell b (row e) (col e) = Some t \<Longrightarrow> color t = color p"
  shows "distinct (getRawMoves b pos ep)"
proof (cases "cell b (row pos) (col pos)")
  case None
  then show ?thesis by (simp add: getRawMoves_def)
next
  case (Some p)
  have "distinct (getPawnMoves b pos (color p) ep)"
    by (rule getPawnMoves_distinct) (use assms(3) Some in blast)
  with Some show ?thesis
    by (cases "type p")
       (simp_all add: getRawMoves_def getRookMoves_distinct getBishopMoves_distinct
          getKnightMoves_distinct getQueenMoves_distinct getKingMovesRaw_distinct)
qed

text \<open>
  Claim C7 says that no call of \<^verbatim>\<open>getRawMoves\<close> returns a destination twice. With the
  en-passant target on e5, where the black pawn stands, the white pawn's capture on e5 is
  pushed once as a capture and once as the en-passant move.
\<close>

theorem getRawMoves_distinct_counterexample:
  "getRawMoves occupiedTargetBoard \<lparr>row = 4, col = 3\<rparr> (Some \<lparr>row = 3, col = 4\<rparr>)
     = [\<lparr>row = 3, col = 3\<rparr>, \<lparr>row = 3, col = 4\<rparr>, \<lparr>row = 3, col = 4\<rparr>]
   \<and> \<not> distinct (getRawMoves occupiedTargetBoard \<lparr>row = 4, col = 3\<rparr>
                     (Some \<lparr>row = 3, col = 4\<rparr>))"
proof -
  have "getRawMoves occupiedTargetBoard \<lparr>row = 4, col = 3\<rparr> (Some \<lparr>row = 3, col = 4\<rparr>)
     = [\<lparr>row = 3, col = 3\<rparr>, \<lparr>row = 3, col = 4\<rparr>, \<lparr>row = 3, col = 4\<rparr>]"
    by code_simp
  then show ?thesis by simp
qed

text \<open>
  The pawn on d5 with the empty target e6, and the queen on b7 with no target.
\<close>

theorem getRawMoves_distinct_witness:
  "wf_board enPassantBoard
   \<and> cell enPassantBoard 2 4 = None
   \<and> getRawMoves enPassantBoard \<lparr>row = 3, col = 3\<rparr> (Some \<lparr>row = 2, col = 4\<rparr>)
       = [\<lparr>row = 2, col = 3\<rparr>, \<lparr>row = 2, col = 4\<rparr>]
   \<and> distinct (getRawMoves enPassantBoard \<lparr>row = 3, col = 3\<rparr> (Some \<lparr>row = 2, col = 4\<rparr>))
   \<and> distinct (getRawMoves mateBoard \<lparr>row = 1, col = 1\<rparr> None)"
proof -
  note w = wf_enPassantBoard
  note w' = wf_mateBoard
  have c: "cell enPassantBoard 2 4 = None"
    by (simp add: enPassantBoard_def cell_def emptyRow_def)
  have i: "isInBounds (row \<lparr>row = 3, col = 3\<rparr>) (col \<lparr>row = 3, col = 3\<rparr>)"
    "isInBounds (row \<lparr>row = 1, col = 1\<rparr>) (col \<lparr>row = 1, col = 1\<rparr>)"
    by (simp_all add: isInBounds_def)
  have r: "getRawMoves enPassantBoard \<lparr>row = 3, col = 3\<rparr> (Some \<lparr>row = 2, col = 4\<rparr>)
       = [\<lparr>row = 2, col = 3\<rparr>, \<lparr>row = 2, col = 4\<rparr>]"
    by code_simp
  have d1: "distinct (getRawMoves enPassantBoard \<lparr>row = 3, col = 3\<rparr> (Some \<lparr>row = 2, col = 4\<rparr>))"
    by (rule getRawMoves_distinct[OF w i(1)]) (auto simp: c)
  have d2: "distinct (getRawMoves mateBoard \<lparr>row = 1, col = 1\<rparr> None)"
    by (rule getRawMoves_distinct[OF w' i(2)]) simp
  from w c r d1 d2 show ?thesis by simp
qed

section \<open>Castling\<close>

lemma getKingMovesRaw_near:
  "m \<in> set (getKingMovesRaw b pos clr) \<Longrightarrow>
     \<bar>row m - row pos\<bar> \<le> 1 \<and> \<bar>col m - col pos\<bar> \<le> 1"
  by (auto simp: getKingMovesRaw_def dest!: stepTo_eq)

lemma castleKingside_iff:
  "m \<in> set (castleKingside b rw opp) \<longleftrightarrow>
     m = \<lparr>row = rw, col = 6\<rparr> \<and>
     (\<exists>rk. cell b rw 7 = Some rk \<and> type rk = Rook \<and> \<not> hasMovedTruthy rk) \<and>
     cell b rw 5 = None \<and> cell b rw 6 = None \<and>
     \<not> isSquareAttacked b \<lparr>row = rw, col = 4\<rparr> opp \<and>
     \<not> isSquareAttacked b \<lparr>row = rw, col = 5\<rparr> opp \<and>
     \<not> isSquareAttacked b \<lparr>row = rw, col = 6\<rparr> opp"
  by (cases "cell b rw 7") (auto simp: castleKingside_def)

lemma castleQueenside_iff:
  "m \<in> set (castleQueenside b rw opp) \<longleftrightarrow>
     m = \<lparr>row = rw, col = 2\<rparr> \<and>
     (\<exists>rk. cell b rw 0 = Some rk \<and> type rk = Rook \<and> \<not> hasMovedTruthy rk) \<and>
     cell b rw 1 = None \<and> cell b rw 2 = None \<and> cell b rw 3 = None \<and>
     \<not> isSquareAttacked b \<lparr>row = rw, col = 4\<rparr> opp \<and>
     \<not> isSquareAttacked b \<lparr>row = rw, col = 3\<rparr> opp \<and>
     \<not> isSquareAttacked b \<lparr>row = rw, col = 2\<rparr> opp"
  by (cases "cell b rw 0") (auto simp: castleQueenside_def)

lemma getCastlingMoves_cases:
  assumes "m \<in> set (getCastlingMoves b pos clr)"
  obtains k where "cell b (row pos) (col pos) = Some k" "\<not> hasMovedTruthy k"
    "row pos = (if clr = White then 7 else 0)" "col pos = 4"
    "m \<in> set (castleKingside b (row pos) (opponent clr)) \<or>
     m \<in> set (castleQueenside b (row pos) (opponent clr))"
proof (cases "cell b (row pos) (col pos)")
  case None
  with assms show ?thesis by (simp add: getCastlingMoves_def)
next
  case (Some k)
  with assms have 1: "\<not> hasMovedTruthy k"
    by (auto simp: getCastlingMoves_def split: if_splits)
  with assms Some have 2: "row pos = (if clr = White then 7 else 0)" "col pos = 4"
    by (auto simp: getCastlingMoves_def Let_def split: if_splits)
  with assms Some 1
  have "m \<in> set (castleKingside b (row pos) (opponent clr)) \<or>
        m \<in> set (castleQueenside b (row pos) (opponent clr))"
    by (auto simp: getCastlingMoves_def Let_def split: if_splits)
  with Some 1 2 that show ?thesis by blast
qed

lemma king_two_columns:
  assumes "to \<in> set (getLegalMoves b pos ep)"
    and "cell b (row pos) (col pos) = Some k" and "type k = King"
    and "\<bar>col to - col pos\<bar> = 2"
  shows "col pos = 4 \<and> row pos = (if color k = White then 7 else 0) \<and> row to = row pos \<and>
         (col to = 6 \<and> to \<in> set (castleKingside b (row pos) (opponent (color k))) \<or>
          col to = 2 \<and> to \<in> set (castleQueenside b (row pos) (opponent (color k))))"
proof -
  from assms(1) obtain p where p: "cell b (row pos) (col pos) = Some p"
    and m: "to \<in> set (getRawMoves b pos ep) \<or>
            type p = King \<and> to \<in> set (getCastlingMoves b pos (color p))"
    by (rule getLegalMoves_subset)
  from p assms(2) have pk: "p = k" by simp
  have "to \<notin> set (getRawMoves b pos ep)"
  proof
    assume "to \<in> set (getRawMoves b pos ep)"
    with assms(2,3) have "to \<in> set (getKingMovesRaw b pos (color k))"
      by (simp add: getRawMoves_def)
    from getKingMovesRaw_near[OF this] assms(4) show False by simp
  qed
  with m pk have "to \<in> set (getCastlingMoves b pos (color k))" by simp
  then show ?thesis
    by (rule getCastlingMoves_cases) (auto simp: castleKingside_iff castleQueenside_iff)
qed

lemma applyMove_king:
  assumes "cell b (row frm) (col frm) = Some k" and "type k = King"
  shows "applyMove b frm to ep =
     (if \<bar>col to - col frm\<bar> = 2
      then (case cell b (row frm) (if col to - col frm > 0 then 7 else 0) of
              None \<Rightarrow> Inl NonNullAssertion
            | Some rk \<Rightarrow>
                Inr \<lparr>newBoard =
                       setCell
                         (setCell
                            (setCell
                               (setCell b (row frm) (if col to - col frm > 0 then 5 else 3)
                                  (Some (moved rk)))
                               (row frm) (if col to - col frm > 0 then 7 else 0) None)
                            (row to) (col to) (Some (moved k)))
                         (row frm) (col frm) None,
                     capturedPiece = cell b (row to) (col to),
                     isPromotion = False, isCastling = True, isEnPassant = False\<rparr>)
      else Inr \<lparr>newBoard =
                  setCell (setCell b (row to) (col to) (Some (moved k))) (row frm) (col frm) None,
                capturedPiece = cell b (row to) (col to),
                isPromotion = False, isCastling = False, isEnPassant = False\<rparr>)"
  using assms by (auto simp: applyMove_def Let_def split: option.splits)

text \<open>
  Claim C9. Whenever a king stands on \<open>frm\<close>, \<open>to\<close> is two columns away and was
  produced by \<^verbatim>\<open>getLegalMoves\<close> on the same board and en-passant target, the corner
  \<open>(frm.row, 7)\<close> (kingside) or \<open>(frm.row, 0)\<close> (queenside) holds a rook that has never
  moved; so the read of that square in \<^verbatim>\<open>applyMove\<close> finds a piece, and the call
  returns a castling result with that rook, marked moved, beside the king.
\<close>

theorem castling_rook_present:
  assumes "wf_board b" and "isInBounds (row frm) (col frm)"
    and "cell b (row frm) (col frm) = Some k" and "type k = King"
    and "\<bar>col to - col frm\<bar> = 2"
    and "to \<in> set (getLegalMoves b frm ep)"
  shows "\<exists>rk res. cell b (row frm) (if col to - col frm > 0 then 7 else 0) = Some rk
           \<and> type rk = Rook \<and> \<not> hasMovedTruthy rk
           \<and> applyMove b frm to ep = Inr res \<and> isCastling res
           \<and> cell (newBoard res) (row frm) (if col to - col frm > 0 then 5 else 3)
               = Some (moved rk)"
proof -
  from king_two_columns[OF assms(6,3,4,5)]
  have c4: "col frm = 4" and rw: "row frm = (if color k = White then 7 else 0)"
    and rt: "row to = row frm"
    and side: "col to = 6 \<and> to \<in> set (castleKingside b (row frm) (opponent (color k))) \<or>
          col to = 2 \<and> to \<in> set (castleQueenside b (row frm) (opponent (color k)))"
    by auto
  have ib: "isInBounds (row frm) 7" "isInBounds (row frm) 0" "isInBounds (row frm) 5"
    "isInBounds (row frm) 3" "isInBounds (row frm) 6" "isInBounds (row frm) 2"
    using rw by (auto simp: isInBounds_def)
  from side show ?thesis
  proof
    assume "col to = 6 \<and> to \<in> set (castleKingside b (row frm) (opponent (color k)))"
    then obtain rk where "col to = 6" "cell b (row frm) 7 = Some rk" "type rk = Rook"
      "\<not> hasMovedTruthy rk"
      by (auto simp: castleKingside_iff)
    then show ?thesis
      using c4 rt ib assms(1) by (simp add: applyMove_king[OF assms(3,4)] cell_setCell)
  next
    assume "col to = 2 \<and> to \<in> set (castleQueenside b (row frm) (opponent (color k)))"
    then obtain rk where "col to = 2" "cell b (row frm) 0 = Some rk" "type rk = Rook"
      "\<not> hasMovedTruthy rk"
      by (auto simp: castleQueenside_iff)
    then show ?thesis
      using c4 rt ib assms(1) by (simp add: applyMove_king[OF assms(3,4)] cell_setCell)
  qed
qed

text \<open>White castles kingside: the rook goes from h1 to f1.\<close>

theorem castling_rook_present_witness:
  "wf_board castlingBoard
   \<and> cell castlingBoard 7 4 = piece King White
   \<and> \<lparr>row = 7, col = 6\<rparr> \<in> set (getLegalMoves castlingBoard \<lparr>row = 7, col = 4\<rparr> None)
   \<and> cell castlingBoard 7 7 = piece Rook White
   \<and> \<not> isl (applyMove castlingBoard \<lparr>row = 7, col = 4\<rparr> \<lparr>row = 7, col = 6\<rparr> None)
   \<and> isCastling (projr (applyMove castlingBoard \<lparr>row = 7, col = 4\<rparr> \<lparr>row = 7, col = 6\<rparr> None))
   \<and> cell (newBoard (projr (applyMove castlingBoard \<lparr>row = 7, col = 4\<rparr> \<lparr>row = 7, col = 6\<rparr>
                             None))) 7 5
       = movedPiece Rook White"
proof -
  note w = wf_castlingBoard and l = castlingBoard_castles
  have i: "isInBounds (row \<lparr>row = 7, col = 4\<rparr>) (col \<lparr>row = 7, col = 4\<rparr>)"
    by (simp add: isInBounds_def)
  have k: "cell castlingBoard (row \<lparr>row = 7, col = 4\<rparr>) (col \<lparr>row = 7, col = 4\<rparr>)
             = Some \<lparr>type = King, color = White, hasMoved = Some False\<rparr>"
    by (simp add: castlingBoard_def cell_def piece_def)
  have t: "type \<lparr>type = King, color = White, hasMoved = Some False\<rparr> = King" by simp
  have d: "\<bar>col \<lparr>row = 7, col = 6\<rparr> - col \<lparr>row = 7, col = 4\<rparr>\<bar> = 2" by simp
  have r: "cell castlingBoard 7 7 = piece Rook White"
    by (simp add: castlingBoard_def cell_def)
  from castling_rook_present[OF w i k t d l] r
  obtain res where
    "applyMove castlingBoard \<lparr>row = 7, col = 4\<rparr> \<lparr>row = 7, col = 6\<rparr> None = Inr res"
    "isCastling res"
    "cell (newBoard res) 7 5 = Some (moved \<lparr>type = Rook, color = White, hasMoved = Some False\<rparr>)"
    by (auto simp: piece_def)
  with w k l r show ?thesis by (simp add: piece_def movedPiece_def moved_def)
qed

text \<open>
  Claim C2. On every board with an unmoved white king on \<open>(7,4)\<close>, an unmoved rook on
  \<open>(7,7)\<close>, \<open>(7,5)\<close> and \<open>(7,6)\<close> empty and \<open>(7,5)\<close> attacked by black, the legal
  moves of the king do not contain the kingside castling destination \<open>(7,6)\<close>, and
  they are all the other candidates of the king, its steps to adjacent squares and the
  queenside castling option, that pass the self-check test.
\<close>

theorem castling_denied_on_attacked_path:
  assumes "wf_board b"
    and "cell b 7 4 = Some k" and "type k = King" and "color k = White"
    and "\<not> hasMovedTruthy k"
    and "cell b 7 7 = Some rk" and "type rk = Rook" and "\<not> hasMovedTruthy rk"
    and "cell b 7 5 = None" and "cell b 7 6 = None"
    and "isSquareAttacked b \<lparr>row = 7, col = 5\<rparr> Black"
  shows "\<lparr>row = 7, col = 6\<rparr> \<notin> set (getLegalMoves b \<lparr>row = 7, col = 4\<rparr> ep)
       \<and> getLegalMoves b \<lparr>row = 7, col = 4\<rparr> ep =
           filter (\<lambda>to. \<not> isInCheck (simulateMove b \<lparr>row = 7, col = 4\<rparr> k ep to) White)
             (getKingMovesRaw b \<lparr>row = 7, col = 4\<rparr> White @ castleQueenside b 7 Black)"
proof -
  have ks: "castleKingside b 7 Black = []"
    using assms(11) by (auto simp: castleKingside_def split: option.splits)
  have cm: "getCastlingMoves b \<lparr>row = 7, col = 4\<rparr> White = castleQueenside b 7 Black"
    using assms(2,5) by (simp add: getCastlingMoves_def Let_def opponent_def ks)
  have raw: "getRawMoves b \<lparr>row = 7, col = 4\<rparr> ep = getKingMovesRaw b \<lparr>row = 7, col = 4\<rparr> White"
    using assms(2,3,4) by (simp add: getRawMoves_def)
  have eq: "getLegalMoves b \<lparr>row = 7, col = 4\<rparr> ep =
           filter (\<lambda>to. \<not> isInCheck (simulateMove b \<lparr>row = 7, col = 4\<rparr> k ep to) White)
             (getKingMovesRaw b \<lparr>row = 7, col = 4\<rparr> White @ castleQueenside b 7 Black)"
    using assms(2,3,4) by (simp add: getLegalMoves_Some raw cm)
  have "\<lparr>row = 7, col = 6\<rparr> \<notin> set (getKingMovesRaw b \<lparr>row = 7, col = 4\<rparr> White)"
    using getKingMovesRaw_near[of "\<lparr>row = 7, col = 6\<rparr>" b "\<lparr>row = 7, col = 4\<rparr>" White] by auto
  moreover have "\<lparr>row = 7, col = 6\<rparr> \<notin> set (castleQueenside b 7 Black)"
    by (simp add: castleQueenside_iff)
  ultimately show ?thesis using eq by simp
qed

text \<open>
  With the black rook on f8: no castling to g1; the steps to d2, e2, d1 and the
  queenside castling remain.
\<close>

theorem castling_denied_on_attacked_path_witness:
  "wf_board attackedPathBoard
   \<and> cell attackedPathBoard 7 4 = piece King White
   \<and> cell attackedPathBoard 7 7 = piece Rook White
   \<and> cell attackedPathBoard 7 5 = None \<and> cell attackedPathBoard 7 6 = None
   \<and> isSquareAttacked attackedPathBoard \<lparr>row = 7, col = 5\<rparr> Black
   \<and> \<lparr>row = 7, col = 6\<rparr> \<notin> set (getLegalMoves attackedPathBoard \<lparr>row = 7, col = 4\<rparr> None)
   \<and> getLegalMoves attackedPathBoard \<lparr>row = 7, col = 4\<rparr> None
       = [\<lparr>row = 6, col = 3\<rparr>, \<lparr>row = 6, col = 4\<rparr>, \<lparr>row = 7, col = 3\<rparr>, \<lparr>row = 7, col = 2\<rparr>]"
proof -
  have w: "wf_board attackedPathBoard"
    by (simp add: wf_board_def attackedPathBoard_def emptyRow_def)
  have k: "cell attackedPathBoard 7 4 = Some \<lparr>type = King, color = White, hasMoved = Some False\<rparr>"
    by (simp add: attackedPathBoard_def cell_def piece_def)
  have r: "cell attackedPathBoard 7 7 = Some \<lparr>type = Rook, color = White, hasMoved = Some False\<rparr>"
    by (simp add: attackedPathBoard_def cell_def piece_def)
  have e: "cell attackedPathBoard 7 5 = None" "cell attackedPathBoard 7 6 = None"
    by (simp_all add: attackedPathBoard_def cell_def)
  have a: "isSquareAttacked attackedPathBoard \<lparr>row = 7, col = 5\<rparr> Black"
    by code_simp
  have l: "getLegalMoves attackedPathBoard \<lparr>row = 7, col = 4\<rparr> None
       = [\<lparr>row = 6, col = 3\<rparr>, \<lparr>row = 6, col = 4\<rparr>, \<lparr>row = 7, col = 3\<rparr>, \<lparr>row = 7, col = 2\<rparr>]"
    by code_simp
  have tk: "type \<lparr>type = King, color = White, hasMoved = Some False\<rparr> = King"
    and ck: "color \<lparr>type = King, color = White, hasMoved = Some False\<rparr> = White"
    and hk: "\<not> hasMovedTruthy \<lparr>type = King, color = White, hasMoved = Some False\<rparr>"
    and tr: "type \<lparr>type = Rook, color = White, hasMoved = Some False\<rparr> = Rook"
    and hr: "\<not> hasMovedTruthy \<lparr>type = Rook, color = White, hasMoved = Some False\<rparr>"
    by (simp_all add: hasMovedTruthy_def)
  have "\<lparr>row = 7, col = 6\<rparr> \<notin> set (getLegalMoves attackedPathBoard \<lparr>row = 7, col = 4\<rparr> None)"
    by (rule castling_denied_on_attacked_path[OF w k tk ck hk r tr hr e a, of None,
          THEN conjunct1])
  with w k r e a l show ?thesis by (simp add: piece_def)
qed

section \<open>Moving the castling rook opens no attack\<close>

text \<open>
  Two boards \<open>b1\<close> and \<open>b2\<close> that differ in two squares: a corner \<open>(rc, cc)\<close>, which holds
  a piece \<open>x\<close> on \<open>b1\<close> and is empty on \<open>b2\<close>, and a square \<open>(rm, cm)\<close>, empty on \<open>b1\<close>
  and holding \<open>y\<close> on \<open>b2\<close>. Neither piece has the attacker's colour. Every attack on a
  third square on \<open>b2\<close> is an attack on \<open>b1\<close>: no line passes through a corner.
\<close>

lemma slide_out: "\<not> isInBounds r c \<Longrightarrow> slide b clr r c dr dc = []"
  by (subst slide.simps) simp

lemma slide_None:
  "isInBounds r c \<Longrightarrow> dr \<noteq> 0 \<or> dc \<noteq> 0 \<Longrightarrow> cell b r c = None \<Longrightarrow>
   slide b clr r c dr dc = \<lparr>row = r, col = c\<rparr> # slide b clr (r + dr) (c + dc) dr dc"
  by (subst slide.simps) simp

lemma slide_Some:
  "isInBounds r c \<Longrightarrow> dr \<noteq> 0 \<or> dc \<noteq> 0 \<Longrightarrow> cell b r c = Some t \<Longrightarrow>
   slide b clr r c dr dc = (if color t \<noteq> clr then [\<lparr>row = r, col = c\<rparr>] else [])"
  by (subst slide.simps) simp

lemma stepTo_relocated:
  assumes "\<And>r c. cell b2 r c =
             (if r = rc \<and> c = cc then None else if r = rm \<and> c = cm then Some y
              else cell b1 r c)"
    and "cell b1 rc cc = Some x" and "color x \<noteq> byc"
    and "cell b1 rm cm = None" and "color y \<noteq> byc"
  shows "set (stepTo b2 byc r c) = set (stepTo b1 byc r c)"
  using assms by (auto simp: stepTo_def split: option.splits if_splits)

lemma slide_relocated:
  assumes "\<And>r c. cell b2 r c =
             (if r = rc \<and> c = cc then None else if r = rm \<and> c = cm then Some y
              else cell b1 r c)"
    and "cell b1 rc cc = Some x" and "color x \<noteq> byc"
    and "cell b1 rm cm = None" and "color y \<noteq> byc"
    and "rc = 0 \<or> rc = 7" and "cc = 0 \<or> cc = 7"
    and "isInBounds (r - dr) (c - dc)"
    and "m \<in> set (slide b2 byc r c dr dc)"
  shows "m \<in> set (slide b1 byc r c dr dc)"
  using assms
proof (induction b2 byc r c dr dc rule: slide.induct)
  case (1 b clr r c dr dc)
  note cellb = "1.prems"(1)
  show ?case
  proof (cases "isInBounds r c \<and> (dr \<noteq> 0 \<or> dc \<noteq> 0)")
    case False
    with "1.prems"(9) show ?thesis by (subst (asm) slide.simps) auto
  next
    case True
    show ?thesis
    proof (cases "r = rc \<and> c = cc")
      case corner: True
      have out: "\<not> isInBounds (r + dr) (c + dc)"
        using corner True "1.prems"(6,7,8) by (auto simp: isInBounds_def)
      have "cell b r c = None" using cellb[of r c] corner by auto
      with True "1.prems"(9) out have "m = \<lparr>row = r, col = c\<rparr>"
        by (simp add: slide_None slide_out)
      moreover have "slide b1 clr r c dr dc = [\<lparr>row = r, col = c\<rparr>]"
        using True corner "1.prems"(2,3) by (simp add: slide_Some)
      ultimately show ?thesis by simp
    next
      case nc: False
      show ?thesis
      proof (cases "r = rm \<and> c = cm")
        case mid: True
        have "cell b r c = Some y" using cellb[of r c] nc mid by auto
        with True "1.prems"(9) have "m = \<lparr>row = r, col = c\<rparr>"
          by (simp add: slide_Some split: if_splits)
        moreover have "\<lparr>row = r, col = c\<rparr> \<in> set (slide b1 clr r c dr dc)"
          using True mid "1.prems"(4) by (simp add: slide_None)
        ultimately show ?thesis by simp
      next
        case nm: False
        have same: "cell b r c = cell b1 r c" using cellb[of r c] nc nm by auto
        show ?thesis
        proof (cases "cell b r c")
          case None
          with True "1.prems"(9)
          consider "m = \<lparr>row = r, col = c\<rparr>" | "m \<in> set (slide b clr (r + dr) (c + dc) dr dc)"
            by (auto simp: slide_None)
          then show ?thesis
          proof cases
            case 1
            with True None same show ?thesis by (simp add: slide_None)
          next
            case 2
            have "isInBounds (r + dr - dr) (c + dc - dc)" using True by simp
            from "1.IH"[OF True None "1.prems"(1-7) this 2]
            show ?thesis using True None same by (simp add: slide_None)
          qed
        next
          case (Some t)
          then have "cell b1 r c = Some t" using same by simp
          with True "1.prems"(9) Some show ?thesis
            by (simp add: slide_Some[of r c dr dc b t] slide_Some[of r c dr dc b1 t])
        qed
      qed
    qed
  qed
qed

lemma pawnForward_relocated:
  assumes cellb: "\<And>r c. cell b2 r c =
             (if r = rc \<and> c = cc then None else if r = rm \<and> c = cm then Some y
              else cell b1 r c)"
    and "cell b1 rm cm = None"
    and "rc = 0 \<or> rc = 7"
    and "dir = - 1 \<and> startRow = 6 \<or> dir = 1 \<and> startRow = 1"
    and "\<not> (row t = rc \<and> col t = cc)" and "\<not> (row t = rm \<and> col t = cm)"
    and "t \<in> set (pawnForward b2 r c dir startRow)"
  shows "t \<in> set (pawnForward b1 r c dir startRow)"
proof -
  have tcell: "cell b2 (row t) (col t) = cell b1 (row t) (col t)"
    using cellb[of "row t" "col t"] assms(5,6) by auto
  from pawnForward_cases[OF assms(7)]
  have ib: "isInBounds (r + dir) c" and f2: "cell b2 (r + dir) c = None"
    and t: "t = \<lparr>row = r + dir, col = c\<rparr> \<or>
            t = \<lparr>row = r + 2 * dir, col = c\<rparr> \<and> r = startRow \<and> cell b2 (r + 2 * dir) c = None"
    by auto
  from t show ?thesis
  proof
    assume "t = \<lparr>row = r + dir, col = c\<rparr>"
    with tcell f2 ib show ?thesis by (simp add: pawnForward_def)
  next
    assume "t = \<lparr>row = r + 2 * dir, col = c\<rparr> \<and> r = startRow \<and>
            cell b2 (r + 2 * dir) c = None"
    then have two: "t = \<lparr>row = r + 2 * dir, col = c\<rparr>" "r = startRow"
      "cell b2 (r + 2 * dir) c = None" by auto
    have "cell b2 (r + 2 * dir) c = cell b1 (r + 2 * dir) c"
      using tcell unfolding two(1) by simp
    with two(3) have t2: "cell b1 (r + 2 * dir) c = None" by simp
    have "r + dir \<noteq> rc" using two(2) assms(3,4) by auto
    then have "cell b1 (r + dir) c = None"
      using cellb[of "r + dir" c] f2 assms(2) by (auto split: if_splits)
    with two t2 ib show ?thesis by (simp add: pawnForward_def)
  qed
qed

lemma pawnCapture_relocated:
  assumes cellb: "\<And>r c. cell b2 r c =
             (if r = rc \<and> c = cc then None else if r = rm \<and> c = cm then Some y
              else cell b1 r c)"
    and "\<not> (row t = rc \<and> col t = cc)" and "\<not> (row t = rm \<and> col t = cm)"
    and "t \<in> set (pawnCapture b2 clr None nr nc)"
  shows "t \<in> set (pawnCapture b1 clr None nr nc)"
proof -
  from pawnCapture_cases[OF assms(4)] obtain u
    where ib: "isInBounds nr nc" and t: "t = \<lparr>row = nr, col = nc\<rparr>"
      and u: "cell b2 nr nc = Some u" "color u \<noteq> clr"
    by auto
  have "cell b2 nr nc = cell b1 nr nc"
    using cellb[of nr nc] assms(2,3) t by auto
  with ib t u show ?thesis by (simp add: pawnCapture_def)
qed

lemma getPawnMoves_relocated:
  assumes cellb: "\<And>r c. cell b2 r c =
             (if r = rc \<and> c = cc then None else if r = rm \<and> c = cm then Some y
              else cell b1 r c)"
    and "cell b1 rm cm = None"
    and "rc = 0 \<or> rc = 7"
    and "\<not> (row t = rc \<and> col t = cc)" and "\<not> (row t = rm \<and> col t = cm)"
    and "t \<in> set (getPawnMoves b2 pos clr None)"
  shows "t \<in> set (getPawnMoves b1 pos clr None)"
proof -
  have d: "(if clr = White then - 1 else 1) = - 1 \<and> (if clr = White then 6 else 1) = (6::int) \<or>
           (if clr = White then - 1 else 1) = (1::int) \<and> (if clr = White then 6 else 1) = (1::int)"
    by simp
  from assms(6) show ?thesis
    unfolding getPawnMoves_set
    using pawnForward_relocated[OF cellb assms(2,3) d assms(4,5)]
          pawnCapture_relocated[OF cellb assms(4,5)]
    by blast
qed

lemma slides_relocated:
  assumes cellb: "\<And>r c. cell b2 r c =
             (if r = rc \<and> c = cc then None else if r = rm \<and> c = cm then Some y
              else cell b1 r c)"
    and "cell b1 rc cc = Some x" and "color x \<noteq> byc"
    and "cell b1 rm cm = None" and "color y \<noteq> byc"
    and "rc = 0 \<or> rc = 7" and "cc = 0 \<or> cc = 7"
    and "isInBounds (row pos) (col pos)"
    and "t \<in> set (concat (map (\<lambda>(dr, dc). slide b2 byc (row pos + dr) (col pos + dc) dr dc) ds))"
  shows "t \<in> set (concat (map (\<lambda>(dr, dc). slide b1 byc (row pos + dr) (col pos + dc) dr dc) ds))"
proof -
  from assms(9) obtain dr dc where d: "(dr, dc) \<in> set ds"
    and t: "t \<in> set (slide b2 byc (row pos + dr) (col pos + dc) dr dc)"
    by auto
  have "isInBounds (row pos + dr - dr) (col pos + dc - dc)" using assms(8) by simp
  from slide_relocated[OF cellb assms(2-7) this t] d show ?thesis by auto
qed

lemma getRawMoves_relocated:
  assumes cellb: "\<And>r c. cell b2 r c =
             (if r = rc \<and> c = cc then None else if r = rm \<and> c = cm then Some y
              else cell b1 r c)"
    and "cell b1 rc cc = Some x" and "color x \<noteq> color p"
    and "cell b1 rm cm = None" and "color y \<noteq> color p"
    and "rc = 0 \<or> rc = 7" and "cc = 0 \<or> cc = 7"
    and "isInBounds (row pos) (col pos)"
    and "cell b2 (row pos) (col pos) = Some p"
    and "\<not> (row t = rc \<and> col t = cc)" and "\<not> (row t = rm \<and> col t = cm)"
    and "t \<in> set (getRawMoves b2 pos None)"
  shows "t \<in> set (getRawMoves b1 pos None)"
proof -
  have p1: "cell b1 (row pos) (col pos) = Some p"
    using cellb[of "row pos" "col pos"] assms(5,9) by (auto split: if_splits)
  note sl = slides_relocated[OF cellb assms(2-8)]
  note st = stepTo_relocated[OF cellb assms(2-5)]
  have rook: "t \<in> set (getRookMoves b1 pos (color p))"
    if "t \<in> set (getRookMoves b2 pos (color p))" for t
    using that unfolding getRookMoves_def by (rule sl)
  have bishop: "t \<in> set (getBishopMoves b1 pos (color p))"
    if "t \<in> set (getBishopMoves b2 pos (color p))" for t
    using that unfolding getBishopMoves_def by (rule sl)
  have knight: "set (getKnightMoves b2 pos (color p)) = set (getKnightMoves b1 pos (color p))"
    by (simp add: getKnightMoves_def st)
  have king: "set (getKingMovesRaw b2 pos (color p)) = set (getKingMovesRaw b1 pos (color p))"
    by (simp add: getKingMovesRaw_def st)
  show ?thesis
  proof (cases "type p")
    case Pawn
    with assms(9,12) p1 getPawnMoves_relocated[OF cellb assms(4,6,10,11)]
    show ?thesis by (simp add: getRawMoves_def)
  next
    case Rook
    with assms(9,12) p1 rook show ?thesis by (simp add: getRawMoves_def)
  next
    case Bishop
    with assms(9,12) p1 bishop show ?thesis by (simp add: getRawMoves_def)
  next
    case Queen
    with assms(9,12) p1 rook bishop show ?thesis
      by (auto simp: getRawMoves_def getQueenMoves_def)
  next
    case Knight
    with assms(9,12) p1 knight show ?thesis
      by (auto simp: getRawMoves_def)
  next
    case King
    with assms(9,12) p1 king show ?thesis
      by (simp add: getRawMoves_def)
  qed
qed

lemma isSquareAttacked_relocated:
  assumes cellb: "\<And>r c. cell b2 r c =
             (if r = rc \<and> c = cc then None else if r = rm \<and> c = cm then Some y
              else cell b1 r c)"
    and "cell b1 rc cc = Some x" and "color x \<noteq> byc"
    and "cell b1 rm cm = None" and "color y \<noteq> byc"
    and "rc = 0 \<or> rc = 7" and "cc = 0 \<or> cc = 7"
    and "\<not> (row t = rc \<and> col t = cc)" and "\<not> (row t = rm \<and> col t = cm)"
    and "isSquareAttacked b2 t byc"
  shows "isSquareAttacked b1 t byc"
proof -
  from assms(10) obtain sq p m where sq: "isInBounds (row sq) (col sq)"
    and p: "cell b2 (row sq) (col sq) = Some p" "color p = byc"
    and m: "m \<in> set (getRawMoves b2 sq None)" "m = t"
    unfolding isSquareAttacked_def list_ex_iff by (auto split: option.splits)
  have p1: "cell b1 (row sq) (col sq) = Some p"
    using cellb[of "row sq" "col sq"] p assms(5) by (auto split: if_splits)
  have "t \<in> set (getRawMoves b1 sq None)"
    using getRawMoves_relocated[OF cellb assms(2) _ assms(4) _ assms(6,7) sq p(1) assms(8,9)]
      m p(2) assms(3,5) by simp
  with sq p1 p(2) show ?thesis
    unfolding isSquareAttacked_def list_ex_iff by (auto intro!: bexI[of _ sq])
qed

lemma findKing_Some:
  assumes "findKing b clr = Some t"
  shows "\<exists>k. cell b (row t) (col t) = Some k \<and> type k = King \<and> color k = clr"
  using assms unfolding findKing_def find_Some_iff by (auto split: option.splits)

lemma findKing_relocated:
  assumes cellb: "\<And>r c. cell b2 r c =
             (if r = rc \<and> c = cc then None else if r = rm \<and> c = cm then Some y
              else cell b1 r c)"
    and "cell b1 rc cc = Some x" and "type x \<noteq> King"
    and "cell b1 rm cm = None" and "type y \<noteq> King"
  shows "findKing b2 clr = findKing b1 clr"
proof -
  have eq: "(case cell b2 (row sq) (col sq) of
           Some q \<Rightarrow> type q = King \<and> color q = clr | None \<Rightarrow> False)
      = (case cell b1 (row sq) (col sq) of
           Some q \<Rightarrow> type q = King \<and> color q = clr | None \<Rightarrow> False)" for sq
    using cellb[of "row sq" "col sq"] assms(2-5) by (auto split: option.splits)
  show ?thesis unfolding findKing_def by (simp only: eq)
qed

lemma isInCheck_relocated:
  assumes cellb: "\<And>r c. cell b2 r c =
             (if r = rc \<and> c = cc then None else if r = rm \<and> c = cm then Some y
              else cell b1 r c)"
    and "cell b1 rc cc = Some x" and "type x \<noteq> King" and "color x = clr"
    and "cell b1 rm cm = None" and "type y \<noteq> King" and "color y = clr"
    and "rc = 0 \<or> rc = 7" and "cc = 0 \<or> cc = 7"
    and "isInCheck b2 clr"
  shows "isInCheck b1 clr"
proof -
  from assms(10) obtain t where t: "findKing b2 clr = Some t"
    and a: "isSquareAttacked b2 t (opponent clr)"
    unfolding isInCheck_def by (auto split: option.splits)
  from findKing_Some[OF t] obtain k where k: "cell b2 (row t) (col t) = Some k" "type k = King"
    by auto
  have nc: "\<not> (row t = rc \<and> col t = cc)" and nm: "\<not> (row t = rm \<and> col t = cm)"
    using cellb[of "row t" "col t"] k assms(6) by (auto split: if_splits)
  have o: "color x \<noteq> opponent clr" "color y \<noteq> opponent clr"
    using assms(4,7) by (auto simp: opponent_def)
  from isSquareAttacked_relocated[OF cellb assms(2) o(1) assms(5) o(2) assms(8,9) nc nm a]
  have "isSquareAttacked b1 t (opponent clr)" .
  moreover have "findKing b1 clr = Some t"
    using findKing_relocated[OF cellb assms(2,3,5,6), of clr] t by simp
  ultimately show ?thesis by (simp add: isInCheck_def)
qed

section \<open>No legal move leaves the mover in check\<close>

lemma corner_rook_attacks_kingside:
  assumes "rw = 0 \<or> rw = 7"
    and "cell b rw 7 = Some rk" and "type rk = Rook" and "cell b rw 6 = None"
  shows "isSquareAttacked b \<lparr>row = rw, col = 6\<rparr> (color rk)"
proof -
  have ib: "isInBounds rw 7" "isInBounds rw 6" using assms(1) by (auto simp: isInBounds_def)
  have "slide b (color rk) rw 6 0 (- 1)
          = \<lparr>row = rw, col = 6\<rparr> # slide b (color rk) (rw + 0) (6 + - 1) 0 (- 1)"
    by (rule slide_None[OF ib(2) _ assms(4)]) simp
  then have "\<lparr>row = rw, col = 6\<rparr> \<in> set (getRookMoves b \<lparr>row = rw, col = 7\<rparr> (color rk))"
    by (simp add: getRookMoves_def)
  then have "\<lparr>row = rw, col = 6\<rparr> \<in> set (getRawMoves b \<lparr>row = rw, col = 7\<rparr> None)"
    using assms(2,3) by (simp add: getRawMoves_def)
  with assms(2) ib(1) show ?thesis
    unfolding isSquareAttacked_def list_ex_iff
    by (intro bexI[of _ "\<lparr>row = rw, col = 7\<rparr>"]) (auto simp: positionsEqual_def)
qed

lemma corner_rook_attacks_queenside:
  assumes "rw = 0 \<or> rw = 7"
    and "cell b rw 0 = Some rk" and "type rk = Rook"
    and "cell b rw 1 = None" and "cell b rw 2 = None"
  shows "isSquareAttacked b \<lparr>row = rw, col = 2\<rparr> (color rk)"
proof -
  have ib: "isInBounds rw 0" "isInBounds rw 1" "isInBounds rw 2"
    using assms(1) by (auto simp: isInBounds_def)
  have "slide b (color rk) rw 2 0 1
          = \<lparr>row = rw, col = 2\<rparr> # slide b (color rk) (rw + 0) (2 + 1) 0 1"
    by (rule slide_None[OF ib(3) _ assms(5)]) simp
  moreover have "slide b (color rk) rw 1 0 1
          = \<lparr>row = rw, col = 1\<rparr> # slide b (color rk) (rw + 0) (1 + 1) 0 1"
    by (rule slide_None[OF ib(2) _ assms(4)]) simp
  ultimately have "\<lparr>row = rw, col = 2\<rparr> \<in> set (getRookMoves b \<lparr>row = rw, col = 0\<rparr> (color rk))"
    by (simp add: getRookMoves_def)
  then have "\<lparr>row = rw, col = 2\<rparr> \<in> set (getRawMoves b \<lparr>row = rw, col = 0\<rparr> None)"
    using assms(2,3) by (simp add: getRawMoves_def)
  with assms(2) ib(1) show ?thesis
    unfolding isSquareAttacked_def list_ex_iff
    by (intro bexI[of _ "\<lparr>row = rw, col = 0\<rparr>"]) (auto simp: positionsEqual_def)
qed

lemma not_opponent: "c \<noteq> opponent clr \<longleftrightarrow> c = clr"
  by (cases c; cases clr) (auto simp: opponent_def)

lemma applyMove_plain:
  assumes "wf_board b"
    and "isInBounds (row frm) (col frm)" and "isInBounds (row to) (col to)"
    and "cell b (row frm) (col frm) = Some p"
    and "\<not> (type p = King \<and> \<bar>col to - col frm\<bar> = 2)"
    and "type p = Pawn \<Longrightarrow> row to \<noteq> row frm"
  shows "\<exists>res. applyMove b frm to ep = Inr res \<and> newBoard res = simulateMove b frm p ep to"
proof (cases "type p = Pawn \<and> ep = Some to")
  case False
  with assms(4,5) show ?thesis
    by (cases ep) (auto simp: applyMove_def simulateMove_def Let_def)
next
  case True
  have ib: "isInBounds (row frm) (col to)" using assms(2,3) by (simp add: isInBounds_def)
  have "setCell (setCell (setCell b (row frm) (col to) None) (row to) (col to) (Some (moved p)))
          (row frm) (col frm) None
      = setCell (setCell (setCell b (row to) (col to) (Some (moved p))) (row frm) (col frm) None)
          (row frm) (col to) None"
    using assms(1,2,3,6) True ib
    by (intro board_ext) (auto simp: cell_setCell)
  with True assms(4) show ?thesis
    by (simp add: applyMove_pawn simulateMove_def Let_def)
qed

lemma castling_keeps_king_safe:
  assumes "wf_board b"
    and "cell b (row pos) (col pos) = Some k" and "type k = King"
    and "\<bar>col to - col pos\<bar> = 2"
    and "to \<in> set (getLegalMoves b pos ep)"
  shows "\<exists>res. applyMove b pos to ep = Inr res \<and> \<not> isInCheck (newBoard res) (color k)"
proof -
  from king_two_columns[OF assms(5,2,3,4)]
  have c4: "col pos = 4" and rw: "row pos = (if color k = White then 7 else 0)"
    and rt: "row to = row pos"
    and side: "col to = 6 \<and> to \<in> set (castleKingside b (row pos) (opponent (color k))) \<or>
          col to = 2 \<and> to \<in> set (castleQueenside b (row pos) (opponent (color k)))"
    by auto
  define rw where "rw = row pos"
  have rw07: "rw = 0 \<or> rw = 7" using rw by (simp add: rw_def)
  have ib: "isInBounds rw 0" "isInBounds rw 2" "isInBounds rw 3" "isInBounds rw 4"
    "isInBounds rw 5" "isInBounds rw 6" "isInBounds rw 7"
    using rw07 by (auto simp: isInBounds_def)
  from assms(5) assms(2) have safe: "\<not> isInCheck (simulateMove b pos k ep to) (color k)"
    by (auto elim!: getLegalMoves_subset)
  define sim where "sim = setCell (setCell b rw (col to) (Some (moved k))) rw 4 None"
  have sim: "simulateMove b pos k ep to = sim"
    using assms(3) c4 rt by (simp add: simulateMove_def Let_def sim_def rw_def)
  from side show ?thesis
  proof
    assume "col to = 6 \<and> to \<in> set (castleKingside b (row pos) (opponent (color k)))"
    then obtain rk where ct: "col to = 6" and rk: "cell b rw 7 = Some rk" "type rk = Rook"
      and e: "cell b rw 5 = None" "cell b rw 6 = None"
      and na: "\<not> isSquareAttacked b \<lparr>row = rw, col = 6\<rparr> (opponent (color k))"
      by (auto simp: castleKingside_iff rw_def)
    have own: "color rk = color k"
      using corner_rook_attacks_kingside[OF rw07 rk e(2)] na not_opponent[of "color rk" "color k"]
      by auto
    define real where "real =
      setCell (setCell (setCell (setCell b rw 5 (Some (moved rk))) rw 7 None)
                 rw 6 (Some (moved k))) rw 4 None"
    have app: "applyMove b pos to ep =
                 Inr \<lparr>newBoard = real, capturedPiece = cell b (row to) (col to),
                      isPromotion = False, isCastling = True, isEnPassant = False\<rparr>"
      using ct c4 rt rk by (simp add: applyMove_king[OF assms(2,3)] real_def rw_def)
    have cells: "cell real r c =
             (if r = rw \<and> c = 7 then None else if r = rw \<and> c = 5 then Some (moved rk)
              else cell sim r c)" for r c
      using assms(1) ib ct by (auto simp: real_def sim_def cell_setCell)
    have s7: "cell sim rw 7 = Some rk" and s5: "cell sim rw 5 = None"
      using assms(1) ib ct rk e by (auto simp: sim_def cell_setCell)
    have "\<not> isInCheck real (color k)"
    proof
      assume "isInCheck real (color k)"
      from isInCheck_relocated[OF cells s7 _ own s5 _ _ rw07 _ this]
      have "isInCheck sim (color k)" using rk(2) own by (simp add: moved_def)
      with safe sim show False by simp
    qed
    with app show ?thesis by simp
  next
    assume "col to = 2 \<and> to \<in> set (castleQueenside b (row pos) (opponent (color k)))"
    then obtain rk where ct: "col to = 2" and rk: "cell b rw 0 = Some rk" "type rk = Rook"
      and e: "cell b rw 1 = None" "cell b rw 2 = None" "cell b rw 3 = None"
      and na: "\<not> isSquareAttacked b \<lparr>row = rw, col = 2\<rparr> (opponent (color k))"
      by (auto simp: castleQueenside_iff rw_def)
    have own: "color rk = color k"
      using corner_rook_attacks_queenside[OF rw07 rk e(1,2)] na
        not_opponent[of "color rk" "color k"]
      by auto
    define real where "real =
      setCell (setCell (setCell (setCell b rw 3 (Some (moved rk))) rw 0 None)
                 rw 2 (Some (moved k))) rw 4 None"
    have app: "applyMove b pos to ep =
                 Inr \<lparr>newBoard = real, capturedPiece = cell b (row to) (col to),
                      isPromotion = False, isCastling = True, isEnPassant = False\<rparr>"
      using ct c4 rt rk by (simp add: applyMove_king[OF assms(2,3)] real_def rw_def)
    have cells: "cell real r c =
             (if r = rw \<and> c = 0 then None else if r = rw \<and> c = 3 then Some (moved rk)
              else cell sim r c)" for r c
      using assms(1) ib ct by (auto simp: real_def sim_def cell_setCell)
    have s0: "cell sim rw 0 = Some rk" and s3: "cell sim rw 3 = None"
      using assms(1) ib ct rk e by (auto simp: sim_def cell_setCell)
    have "\<not> isInCheck real (color k)"
    proof
      assume "isInCheck real (color k)"
      from isInCheck_relocated[OF cells s0 _ own s3 _ _ rw07 _ this]
      have "isInCheck sim (color k)" using rk(2) own by (simp add: moved_def)
      with safe sim show False by simp
    qed
    with app show ?thesis by simp
  qed
qed

text \<open>
  Claim C1. For every board, every square and every en-passant target, each move \<open>to\<close>
  returned by \<^verbatim>\<open>getLegalMoves\<close> is applied by \<^verbatim>\<open>applyMove\<close> to a new board on which
  the king of the mover's colour is not in check. For a castling move the applied board
  differs from the board that the filter of \<^verbatim>\<open>getLegalMoves\<close> tested, by the rook that
  has left its corner; that opens no attack.
\<close>

theorem legal_moves_keep_king_safe:
  assumes "wf_board b" and "isInBounds (row pos) (col pos)"
    and "to \<in> set (getLegalMoves b pos ep)"
  shows "\<exists>p res. cell b (row pos) (col pos) = Some p
           \<and> applyMove b pos to ep = Inr res
           \<and> \<not> isInCheck (newBoard res) (color p)"
proof -
  from assms(3) obtain p where p: "cell b (row pos) (col pos) = Some p"
    and m: "to \<in> set (getRawMoves b pos ep) \<or>
            type p = King \<and> to \<in> set (getCastlingMoves b pos (color p))"
    and safe: "\<not> isInCheck (simulateMove b pos p ep to) (color p)"
    by (rule getLegalMoves_subset)
  show ?thesis
  proof (cases "type p = King \<and> \<bar>col to - col pos\<bar> = 2")
    case True
    with castling_keeps_king_safe[OF assms(1) p _ _ assms(3)] p show ?thesis by simp
  next
    case False
    have tb: "isInBounds (row to) (col to)"
      using m by (auto dest: getRawMoves_in_bounds getCastlingMoves_in_bounds)
    have "row to \<noteq> row pos" if "type p = Pawn"
      using m that p by (auto simp: getRawMoves_def dest: getPawnMoves_row)
    from applyMove_plain[OF assms(1,2) tb p False this, of ep] safe p
    show ?thesis by auto
  qed
qed

text \<open>
  White castles kingside on the castling position, and takes en passant on e6.
\<close>

theorem legal_moves_keep_king_safe_witness:
  "wf_board castlingBoard
   \<and> \<lparr>row = 7, col = 6\<rparr> \<in> set (getLegalMoves castlingBoard \<lparr>row = 7, col = 4\<rparr> None)
   \<and> cell castlingBoard 7 4 = piece King White
   \<and> \<not> isl (applyMove castlingBoard \<lparr>row = 7, col = 4\<rparr> \<lparr>row = 7, col = 6\<rparr> None)
   \<and> \<not> isInCheck (newBoard (projr (applyMove castlingBoard \<lparr>row = 7, col = 4\<rparr>
                                       \<lparr>row = 7, col = 6\<rparr> None))) White
   \<and> wf_board enPassantBoard
   \<and> \<lparr>row = 2, col = 4\<rparr> \<in> set (getLegalMoves enPassantBoard \<lparr>row = 3, col = 3\<rparr>
                                     (Some \<lparr>row = 2, col = 4\<rparr>))
   \<and> cell enPassantBoard 3 3 = movedPiece Pawn White
   \<and> \<not> isl (applyMove enPassantBoard \<lparr>row = 3, col = 3\<rparr> \<lparr>row = 2, col = 4\<rparr>
               (Some \<lparr>row = 2, col = 4\<rparr>))
   \<and> \<not> isInCheck (newBoard (projr (applyMove enPassantBoard \<lparr>row = 3, col = 3\<rparr>
                                       \<lparr>row = 2, col = 4\<rparr> (Some \<lparr>row = 2, col = 4\<rparr>)))) White"
proof -
  have i: "isInBounds (row \<lparr>row = 7, col = 4\<rparr>) (col \<lparr>row = 7, col = 4\<rparr>)"
    "isInBounds (row \<lparr>row = 3, col = 3\<rparr>) (col \<lparr>row = 3, col = 3\<rparr>)"
    by (simp_all add: isInBounds_def)
  have k: "cell castlingBoard 7 4 = piece King White"
    by (simp add: castlingBoard_def cell_def)
  have q: "cell enPassantBoard 3 3 = movedPiece Pawn White"
    by (simp add: enPassantBoard_def cell_def)
  from legal_moves_keep_king_safe[OF wf_castlingBoard i(1) castlingBoard_castles] k
  obtain res where
    "applyMove castlingBoard \<lparr>row = 7, col = 4\<rparr> \<lparr>row = 7, col = 6\<rparr> None = Inr res"
    "\<not> isInCheck (newBoard res) White"
    by (auto simp: piece_def)
  moreover
  from legal_moves_keep_king_safe[OF wf_enPassantBoard i(2) enPassantBoard_captures] q
  obtain res' where
    "applyMove enPassantBoard \<lparr>row = 3, col = 3\<rparr> \<lparr>row = 2, col = 4\<rparr> (Some \<lparr>row = 2, col = 4\<rparr>)
       = Inr res'"
    "\<not> isInCheck (newBoard res') White"
    by (auto simp: movedPiece_def)
  ultimately show ?thesis
    using wf_castlingBoard wf_enPassantBoard castlingBoard_castles enPassantBoard_captures k q
    by simp
qed

end
